theory Spec2Isabelle
  imports Complex_Main
begin

section \<open>Data model (app/lib/types.ts)\<close>

text \<open>
  Times are JavaScript numbers, that is binary64 values; a time is modelled as the real
  number the value denotes. Copying and comparing are exact on these. The one
  arithmetic operation of the editor, the subtraction in the 20 ms guard of the split,
  rounds its result to binary64 (section "Binary64 arithmetic"). NaN, the infinities
  and overflow are left out.

  \<^verbatim>\<open>MouthShape\<close> is a union of string literals, erased at run time: the detector's cue
  carries \<^verbatim>\<open>value: string\<close> and \<^verbatim>\<open>processViaServerAction\<close> casts it unchecked. A label
  is therefore a string here, and \<open>MouthShapes\<close> is the set of the nine literals.
\<close>

type_synonym MouthShape = string

definition MouthShapes :: "MouthShape set" where
  "MouthShapes = {''A'', ''B'', ''C'', ''D'', ''E'', ''F'', ''G'', ''H'', ''X''}"

text \<open>\<^verbatim>\<open>interface PhonemeData { start: number; end: number; value: MouthShape }\<close>\<close>

record PhonemeData =
  start :: real
  end' :: real
  value' :: MouthShape

section \<open>Binary64 arithmetic\<close>

text \<open>
  \<open>binade n x\<close> is the exponent \<open>e\<close> with \<open>2^e \<le> x < 2^(e+1)\<close> of a positive \<open>x\<close>,
  found in at most \<open>n\<close> halvings or doublings; 2200 steps cover the binary64 range.
\<close>

fun binade :: "nat \<Rightarrow> real \<Rightarrow> int" where
  "binade 0 x = 0"
| "binade (Suc n) x =
     (if 2 \<le> x then binade n (x / 2) + 1
      else if x < 1 then binade n (2 * x) - 1
      else 0)"

text \<open>The distance between neighbouring binary64 values around \<open>x\<close>: 53 significant
  bits, and the exponent of the subnormal numbers (\<open>-1022\<close>) as the least one.\<close>

definition ulp :: "real \<Rightarrow> real" where
  "ulp x = 2 powi (max (binade 2200 \<bar>x\<bar>) (- 1022) - 52)"

text \<open>Rounding to the nearest integer, a tie going to the even one.\<close>

definition roundHalfEven :: "real \<Rightarrow> int" where
  "roundHalfEven q =
     (let f = \<lfloor>q\<rfloor>; r = q - of_int f
      in if r < 1 / 2 then f else if 1 / 2 < r then f + 1 else if even f then f else f + 1)"

text \<open>The binary64 value nearest to \<open>x\<close> (round to nearest, ties to even): the value of a
  numeric literal \<open>x\<close>, and the result of an arithmetic operation whose exact result
  is \<open>x\<close>.\<close>

definition round64 :: "real \<Rightarrow> real" where
  "round64 x = (if x = 0 then 0 else of_int (roundHalfEven (x / ulp x)) * ulp x)"

text \<open>\<^verbatim>\<open>a - b\<close> on numbers.\<close>

definition fsub :: "real \<Rightarrow> real \<Rightarrow> real" where
  "fsub a b = round64 (a - b)"

section \<open>Array operations of the host language\<close>

text \<open>\<^verbatim>\<open>Array.prototype.findIndex\<close>: the first index whose element satisfies the
  predicate; \<open>None\<close> stands for the result \<^verbatim>\<open>-1\<close>.\<close>

fun findIndex :: "('a \<Rightarrow> bool) \<Rightarrow> 'a list \<Rightarrow> nat option" where
  "findIndex P [] = None"
| "findIndex P (x # xs) =
     (if P x then Some 0 else map_option Suc (findIndex P xs))"

text \<open>\<^verbatim>\<open>xs.splice(i, n, ...items)\<close> on a copy, for \<open>i \<le> length xs\<close>.\<close>

definition splice :: "nat \<Rightarrow> nat \<Rightarrow> 'a list \<Rightarrow> 'a list \<Rightarrow> 'a list" where
  "splice i n items xs = take i xs @ items @ drop (i + n) xs"

text \<open>\<^verbatim>\<open>xs.slice(0, e)\<close>: a negative \<open>e\<close> counts from the end of the array.\<close>

definition slice0 :: "int \<Rightarrow> 'a list \<Rightarrow> 'a list" where
  "slice0 e xs =
     (if e < 0 then take (nat (int (length xs) + e)) xs else take (nat e) xs)"

text \<open>\<^verbatim>\<open>xs[i]\<close> for an integer \<open>i\<close>: \<open>None\<close> is \<^verbatim>\<open>undefined\<close>.\<close>

definition at_index :: "'a list \<Rightarrow> int \<Rightarrow> 'a option" where
  "at_index xs i = (if 0 \<le> i \<and> i < int (length xs) then Some (xs ! nat i) else None)"

section \<open>Current-phoneme lookup (CharacterDisplay.tsx, MouthShapeDisplay.tsx)\<close>

text \<open>
  \<^verbatim>\<open>
  if (phonemes.length === 0) return null;
  return phonemes.find(p => currentTime >= p.start && currentTime < p.end) || phonemes[0];
  \<close>
  and \<^verbatim>\<open>const currentShape = currentPhoneme?.value || 'X'\<close>. An empty string is falsy.
\<close>

definition containsTime :: "real \<Rightarrow> PhonemeData \<Rightarrow> bool" where
  "containsTime t p = (t \<ge> start p \<and> t < end' p)"

definition currentPhoneme :: "PhonemeData list \<Rightarrow> real \<Rightarrow> PhonemeData option" where
  "currentPhoneme phonemes t =
     (if length phonemes = 0 then None
      else (case List.find (containsTime t) phonemes of
              Some p \<Rightarrow> Some p
            | None \<Rightarrow> Some (phonemes ! 0)))"

definition currentShape :: "PhonemeData list \<Rightarrow> real \<Rightarrow> MouthShape" where
  "currentShape phonemes t =
     (case currentPhoneme phonemes t of
        None \<Rightarrow> ''X''
      | Some p \<Rightarrow> (if value' p = [] then ''X'' else value' p))"

section \<open>The phoneme editor (PhonemeEditor)\<close>

text \<open>
  \<^verbatim>\<open>interface HistoryEntry { phonemes: PhonemeData[]; description: string }\<close>.
  The snapshot field is called \<open>h_phonemes\<close>, the name \<open>phonemes\<close> being kept for the
  live sequence.
\<close>

record HistoryEntry =
  h_phonemes :: "PhonemeData list"
  description :: string

text \<open>
  The state the editor's handlers close over: the \<^verbatim>\<open>phonemes\<close> prop (owned by the
  page, replaced through \<^verbatim>\<open>onPhonemesChange\<close>), and the component's own
  \<^verbatim>\<open>currentTime\<close>, \<^verbatim>\<open>selectedSegmentId\<close>, \<^verbatim>\<open>selectedBoundaryIndex\<close>, \<^verbatim>\<open>history\<close>
  and \<^verbatim>\<open>historyIndex\<close>. The context menu and the zoom level, which no mutation reads,
  are left out.

  A handler is re-created on every render, so that a handler called from a button or
  from the keyboard effect (whose dependencies list the handlers) reads the state
  before the event. The listeners of the waveform widget are different: they are
  registered once, in the effect that depends on \<^verbatim>\<open>[audioUrl]\<close> only, and keep the
  handlers of the render in which that effect ran. Of these listeners only
  \<^verbatim>\<open>segments.dragend\<close> calls a handler that reads state, \<^verbatim>\<open>handleSegmentDrag\<close>; what it
  reads are the \<^verbatim>\<open>phonemes\<close> and the \<^verbatim>\<open>historyIndex\<close> of that render, kept here as
  \<open>listenerPhonemes\<close> and \<open>listenerHistoryIndex\<close>. The editor is modelled on one audio
  source, so the two never change after the mount.

  A segment id is only ever built as \<^verbatim>\<open>`segment-${index}`\<close>, and every handler reads
  it back with \<^verbatim>\<open>parseInt(id.replace("segment-", ""), 10)\<close>. The model carries the
  parsed index: \<open>Some n\<close> is the id \<^verbatim>\<open>segment-n\<close>, \<open>None\<close> the missing id
  (\<^verbatim>\<open>null\<close>), so the \<^verbatim>\<open>isNaN\<close> branch of the handlers never fires.
\<close>

record editor =
  phonemes :: "PhonemeData list"
  currentTime :: real
  selectedSegmentId :: "int option"
  selectedBoundaryIndex :: "int option"
  history :: "HistoryEntry list"
  historyIndex :: int
  listenerPhonemes :: "PhonemeData list"
  listenerHistoryIndex :: int

text \<open>\<^verbatim>\<open>useState<HistoryEntry[]>([])\<close>, \<^verbatim>\<open>useState(-1)\<close>, \<^verbatim>\<open>useState(0)\<close>,
  \<^verbatim>\<open>useState<string | null>(null)\<close>: the editor as mounted on a phoneme list.\<close>

definition initialEditor :: "PhonemeData list \<Rightarrow> editor" where
  "initialEditor ps =
     \<lparr>phonemes = ps, currentTime = 0, selectedSegmentId = None,
      selectedBoundaryIndex = None, history = [], historyIndex = - 1,
      listenerPhonemes = ps, listenerHistoryIndex = - 1\<rparr>"

text \<open>\<^verbatim>\<open>handlePhonemesChange\<close> of the page: \<^verbatim>\<open>setEditablePhonemes(newPhonemes)\<close>.\<close>

definition onPhonemesChange :: "PhonemeData list \<Rightarrow> editor \<Rightarrow> editor" where
  "onPhonemesChange newPhonemes st = st\<lparr>phonemes := newPhonemes\<rparr>"

subsection \<open>History\<close>

text \<open>
  \<^verbatim>\<open>
  setHistory((prev) => {
      const newHistory = prev.slice(0, historyIndex + 1);
      newHistory.push({ phonemes: newPhonemes, description });
      if (newHistory.length > 50) { newHistory.shift(); }
      return newHistory;
  });
  setHistoryIndex((prev) => Math.min(prev + 1, 49));
  \<close>
\<close>

definition addToHistory :: "PhonemeData list \<Rightarrow> string \<Rightarrow> editor \<Rightarrow> editor" where
  "addToHistory newPhonemes descr st =
     (let newHistory = slice0 (historyIndex st + 1) (history st)
                         @ [\<lparr>h_phonemes = newPhonemes, description = descr\<rparr>];
          newHistory = (if length newHistory > 50 then tl newHistory else newHistory)
      in st\<lparr>history := newHistory, historyIndex := min (historyIndex st + 1) 49\<rparr>)"

text \<open>
  The same function as a closure of some render sees it: \<^verbatim>\<open>prev.slice(0, historyIndex + 1)\<close>
  reads the \<^verbatim>\<open>historyIndex\<close> of that render, the two functional updates read the
  state before the event.
\<close>

definition addToHistoryFrom :: "int \<Rightarrow> PhonemeData list \<Rightarrow> string \<Rightarrow> editor \<Rightarrow> editor" where
  "addToHistoryFrom closureHistoryIndex newPhonemes descr st =
     (let newHistory = slice0 (closureHistoryIndex + 1) (history st)
                         @ [\<lparr>h_phonemes = newPhonemes, description = descr\<rparr>];
          newHistory = (if length newHistory > 50 then tl newHistory else newHistory)
      in st\<lparr>history := newHistory, historyIndex := min (historyIndex st + 1) 49\<rparr>)"

text \<open>
  \<^verbatim>\<open>
  if (historyIndex > 0) {
      setHistoryIndex((prev) => prev - 1);
      onPhonemesChange(history[historyIndex - 1].phonemes);
  }
  \<close>
  Reading \<^verbatim>\<open>.phonemes\<close> of a missing entry throws a TypeError.
\<close>

datatype js_error = TypeError

definition undo :: "editor \<Rightarrow> js_error + editor" where
  "undo st =
     (if historyIndex st > 0 then
        (case at_index (history st) (historyIndex st - 1) of
           None \<Rightarrow> Inl TypeError
         | Some e \<Rightarrow> Inr (onPhonemesChange (h_phonemes e)
                            (st\<lparr>historyIndex := historyIndex st - 1\<rparr>)))
      else Inr st)"

definition redo :: "editor \<Rightarrow> js_error + editor" where
  "redo st =
     (if historyIndex st < int (length (history st)) - 1 then
        (case at_index (history st) (historyIndex st + 1) of
           None \<Rightarrow> Inl TypeError
         | Some e \<Rightarrow> Inr (onPhonemesChange (h_phonemes e)
                            (st\<lparr>historyIndex := historyIndex st + 1\<rparr>)))
      else Inr st)"

subsection \<open>Drag-resize\<close>

text \<open>The \<^verbatim>\<open>event.segment\<close> of the waveform widget's \<^verbatim>\<open>segments.dragend\<close> event.\<close>

record Segment =
  id' :: "int option"
  startTime :: real
  endTime :: real

text \<open>
  \<^verbatim>\<open>
  if (!segmentId) return;
  if (isNaN(index) || index < 0 || index >= phonemes.length) return;
  const newPhonemes = [...phonemes];
  newPhonemes[index] = { ...oldPhoneme, start: segment.startTime, end: segment.endTime };
  if (index > 0 && newPhonemes[index].start < newPhonemes[index - 1].end)
      newPhonemes[index - 1] = { ...newPhonemes[index - 1], end: newPhonemes[index].start };
  if (index < newPhonemes.length - 1 && newPhonemes[index].end > newPhonemes[index + 1].start)
      newPhonemes[index + 1] = { ...newPhonemes[index + 1], start: newPhonemes[index].end };
  addToHistory(newPhonemes, "Resize segment");
  onPhonemesChange(newPhonemes);
  \<close>
\<close>

definition dragPhonemes :: "nat \<Rightarrow> real \<Rightarrow> real \<Rightarrow> PhonemeData list \<Rightarrow> PhonemeData list" where
  "dragPhonemes i s e ps =
     (let newPhonemes = ps[i := (ps ! i)\<lparr>start := s, end' := e\<rparr>];
          newPhonemes =
            (if i > 0 \<and> start (newPhonemes ! i) < end' (newPhonemes ! (i - 1))
             then newPhonemes[i - 1 := (newPhonemes ! (i - 1))\<lparr>end' := start (newPhonemes ! i)\<rparr>]
             else newPhonemes);
          newPhonemes =
            (if int i < int (length newPhonemes) - 1
                \<and> end' (newPhonemes ! i) > start (newPhonemes ! (i + 1))
             then newPhonemes[i + 1 := (newPhonemes ! (i + 1))\<lparr>start := end' (newPhonemes ! i)\<rparr>]
             else newPhonemes)
      in newPhonemes)"

text \<open>The handler as a closure: \<open>closurePhonemes\<close> and \<open>closureHistoryIndex\<close> are the
  \<^verbatim>\<open>phonemes\<close> and \<^verbatim>\<open>historyIndex\<close> of the render that created it.\<close>

definition handleSegmentDrag ::
  "PhonemeData list \<Rightarrow> int \<Rightarrow> Segment \<Rightarrow> editor \<Rightarrow> editor" where
  "handleSegmentDrag closurePhonemes closureHistoryIndex segment st =
     (case id' segment of
        None \<Rightarrow> st
      | Some index \<Rightarrow>
          if index < 0 \<or> index \<ge> int (length closurePhonemes) then st
          else
            (let newPhonemes =
                   dragPhonemes (nat index) (startTime segment) (endTime segment)
                     closurePhonemes
             in onPhonemesChange newPhonemes
                  (addToHistoryFrom closureHistoryIndex newPhonemes ''Resize segment'' st)))"

text \<open>
  \<^verbatim>\<open>peaks.on("segments.dragend", (event) => { handleSegmentDrag(event); })\<close>, registered
  in the effect on \<^verbatim>\<open>[audioUrl]\<close>: the only caller of the handler.
\<close>

definition segmentsDragend :: "Segment \<Rightarrow> editor \<Rightarrow> editor" where
  "segmentsDragend segment st =
     handleSegmentDrag (listenerPhonemes st) (listenerHistoryIndex st) segment st"

subsection \<open>Relabel\<close>

definition changeSelectedShape :: "MouthShape \<Rightarrow> editor \<Rightarrow> editor" where
  "changeSelectedShape newShape st =
     (case selectedSegmentId st of
        None \<Rightarrow> st
      | Some index \<Rightarrow>
          if index < 0 \<or> index \<ge> int (length (phonemes st)) then st
          else
            (let newPhonemes =
                   (phonemes st)[nat index := (phonemes st ! nat index)\<lparr>value' := newShape\<rparr>]
             in onPhonemesChange newPhonemes
                  (addToHistory newPhonemes (''Change to '' @ newShape) st)))"

subsection \<open>Split at the play-head\<close>

text \<open>
  \<^verbatim>\<open>
  const segmentIndex = phonemes.findIndex((p) => currentTime >= p.start && currentTime < p.end);
  if (segmentIndex === -1) return;
  const segment = phonemes[segmentIndex];
  const splitTime = currentTime;
  if (splitTime - segment.start < 0.02 || segment.end - splitTime < 0.02) return;
  newPhonemes.splice(segmentIndex, 1,
      { start: segment.start, end: splitTime, value: segment.value },
      { start: splitTime, end: segment.end, value: segment.value });
  addToHistory(newPhonemes, "Split segment");
  onPhonemesChange(newPhonemes);
  setSelectedSegmentId(`segment-${segmentIndex + 1}`);
  \<close>
  The two differences are rounded to binary64, and the literal \<^verbatim>\<open>0.02\<close> is the binary64
  value nearest to 0.02.
\<close>

definition splitAtPlayhead :: "editor \<Rightarrow> editor" where
  "splitAtPlayhead st =
     (case findIndex (containsTime (currentTime st)) (phonemes st) of
        None \<Rightarrow> st
      | Some segmentIndex \<Rightarrow>
          (let segment = phonemes st ! segmentIndex;
               splitTime = currentTime st
           in if fsub splitTime (start segment) < round64 0.02
                 \<or> fsub (end' segment) splitTime < round64 0.02 then st
              else
                (let newPhonemes =
                       splice segmentIndex 1
                         [\<lparr>start = start segment, end' = splitTime, value' = value' segment\<rparr>,
                          \<lparr>start = splitTime, end' = end' segment, value' = value' segment\<rparr>]
                         (phonemes st)
                 in (onPhonemesChange newPhonemes
                       (addToHistory newPhonemes ''Split segment'' st))
                    \<lparr>selectedSegmentId := Some (int segmentIndex + 1)\<rparr>)))"

subsection \<open>Delete a segment\<close>

text \<open>
  \<^verbatim>\<open>
  const targetId = segmentId || selectedSegmentId;
  if (!targetId) return;
  if (isNaN(index) || index < 0 || index >= phonemes.length) return;
  if (phonemes.length <= 1) return;
  const newPhonemes = [...phonemes];
  const deleted = newPhonemes.splice(index, 1)[0];
  if (index > 0) {
      newPhonemes[index - 1] = { ...newPhonemes[index - 1], end: deleted.end };
  } else if (newPhonemes.length > 0) {
      newPhonemes[0] = { ...newPhonemes[0], start: deleted.start };
  }
  addToHistory(newPhonemes, "Delete segment");
  onPhonemesChange(newPhonemes);
  setSelectedSegmentId(null);
  \<close>
\<close>

definition deletePhoneme :: "nat \<Rightarrow> PhonemeData list \<Rightarrow> PhonemeData list" where
  "deletePhoneme i ps =
     (let deleted = ps ! i;
          newPhonemes = splice i 1 [] ps
      in if i > 0 then newPhonemes[i - 1 := (newPhonemes ! (i - 1))\<lparr>end' := end' deleted\<rparr>]
         else if length newPhonemes > 0
         then newPhonemes[0 := (newPhonemes ! 0)\<lparr>start := start deleted\<rparr>]
         else newPhonemes)"

definition deleteSegment :: "int option \<Rightarrow> editor \<Rightarrow> editor" where
  "deleteSegment segmentId st =
     (case (case segmentId of Some i \<Rightarrow> Some i | None \<Rightarrow> selectedSegmentId st) of
        None \<Rightarrow> st
      | Some index \<Rightarrow>
          if index < 0 \<or> index \<ge> int (length (phonemes st)) then st
          else if length (phonemes st) \<le> 1 then st
          else
            (let newPhonemes = deletePhoneme (nat index) (phonemes st)
             in (onPhonemesChange newPhonemes
                   (addToHistory newPhonemes ''Delete segment'' st))
                \<lparr>selectedSegmentId := None\<rparr>))"

subsection \<open>Merge with the next segment, delete a boundary\<close>

text \<open>
  \<^verbatim>\<open>
  if (!selectedSegmentId) return;
  if (isNaN(index) || index < 0 || index >= phonemes.length - 1) return;
  const current = newPhonemes[index];
  const next = newPhonemes[index + 1];
  newPhonemes.splice(index, 2, { start: current.start, end: next.end, value: current.value });
  addToHistory(newPhonemes, "Merge segments");
  onPhonemesChange(newPhonemes);
  \<close>
\<close>

definition mergeWithNext :: "editor \<Rightarrow> editor" where
  "mergeWithNext st =
     (case selectedSegmentId st of
        None \<Rightarrow> st
      | Some index \<Rightarrow>
          if index < 0 \<or> index \<ge> int (length (phonemes st)) - 1 then st
          else
            (let current = phonemes st ! nat index;
                 next = phonemes st ! (nat index + 1);
                 newPhonemes =
                   splice (nat index) 2
                     [\<lparr>start = start current, end' = end' next, value' = value' current\<rparr>]
                     (phonemes st)
             in onPhonemesChange newPhonemes
                  (addToHistory newPhonemes ''Merge segments'' st)))"

text \<open>
  \<^verbatim>\<open>
  if (boundaryIndex < 0 || boundaryIndex >= phonemes.length - 1) return;
  const left = newPhonemes[boundaryIndex];
  const right = newPhonemes[boundaryIndex + 1];
  newPhonemes.splice(boundaryIndex, 2, { start: left.start, end: right.end, value: left.value });
  addToHistory(newPhonemes, "Delete boundary (merge)");
  onPhonemesChange(newPhonemes);
  setSelectedBoundaryIndex(null);
  \<close>
\<close>

definition deleteBoundary :: "int \<Rightarrow> editor \<Rightarrow> editor" where
  "deleteBoundary boundaryIndex st =
     (if boundaryIndex < 0 \<or> boundaryIndex \<ge> int (length (phonemes st)) - 1 then st
      else
        (let left = phonemes st ! nat boundaryIndex;
             right = phonemes st ! (nat boundaryIndex + 1);
             newPhonemes =
               splice (nat boundaryIndex) 2
                 [\<lparr>start = start left, end' = end' right, value' = value' left\<rparr>]
                 (phonemes st)
         in (onPhonemesChange newPhonemes
               (addToHistory newPhonemes ''Delete boundary (merge)'' st))
            \<lparr>selectedBoundaryIndex := None\<rparr>))"

subsection \<open>Editing sessions\<close>

text \<open>
  The events that reach the editor's handlers. The drag comes from the widget's
  \<^verbatim>\<open>segments.dragend\<close> listener; the other five mutations are called from the toolbar
  buttons and the keyboard shortcuts, with the handlers of the current render.
  Besides the six mutations there are the two events that move what a mutation
  reads: \<^verbatim>\<open>player.timeupdate\<close> (\<^verbatim>\<open>setCurrentTime(time)\<close>) and \<^verbatim>\<open>segments.click\<close>
  (\<^verbatim>\<open>setSelectedSegmentId(id); setSelectedBoundaryIndex(null)\<close>), whose listeners only
  call state setters.
\<close>

datatype edit =
    DragEnd Segment
  | ChangeShape MouthShape
  | SplitAtPlayhead
  | DeleteSegment "int option"
  | MergeWithNext
  | DeleteBoundary int
  | TimeUpdate real
  | SegmentClick "int option"

fun applyEdit :: "edit \<Rightarrow> editor \<Rightarrow> editor" where
  "applyEdit (DragEnd segment) st = segmentsDragend segment st"
| "applyEdit (ChangeShape newShape) st = changeSelectedShape newShape st"
| "applyEdit SplitAtPlayhead st = splitAtPlayhead st"
| "applyEdit (DeleteSegment segmentId) st = deleteSegment segmentId st"
| "applyEdit MergeWithNext st = mergeWithNext st"
| "applyEdit (DeleteBoundary boundaryIndex) st = deleteBoundary boundaryIndex st"
| "applyEdit (TimeUpdate time) st = st\<lparr>currentTime := time\<rparr>"
| "applyEdit (SegmentClick segmentId) st =
     st\<lparr>selectedSegmentId := segmentId, selectedBoundaryIndex := None\<rparr>"

text \<open>The states an editing session passes through, one per event.\<close>

fun runEdits :: "edit list \<Rightarrow> editor \<Rightarrow> editor list" where
  "runEdits [] st = []"
| "runEdits (e # es) st = applyEdit e st # runEdits es (applyEdit e st)"

section \<open>The invariants of a segment sequence\<close>

fun contiguous :: "PhonemeData list \<Rightarrow> bool" where
  "contiguous (p # q # ps) = (end' p = start q \<and> contiguous (q # ps))"
| "contiguous _ = True"

definition sortedByStart :: "PhonemeData list \<Rightarrow> bool" where
  "sortedByStart ps = sorted (map start ps)"

definition positiveLength :: "PhonemeData list \<Rightarrow> bool" where
  "positiveLength ps = list_all (\<lambda>p. start p < end' p) ps"

definition validSequence :: "real \<Rightarrow> PhonemeData list \<Rightarrow> bool" where
  "validSequence totalDuration ps =
     (ps \<noteq> [] \<and> sortedByStart ps \<and> contiguous ps
      \<and> start (hd ps) = 0 \<and> end' (last ps) = totalDuration \<and> positiveLength ps)"

text \<open>The same invariants in one recursion: the segments tile the interval from \<open>lo\<close>
  to \<open>hi\<close>, each with positive length.\<close>

fun tiles :: "real \<Rightarrow> real \<Rightarrow> PhonemeData list \<Rightarrow> bool" where
  "tiles lo hi [] = (lo = hi)"
| "tiles lo hi (p # ps) = (start p = lo \<and> lo < end' p \<and> tiles (end' p) hi ps)"

text \<open>
  A drag that keeps the sequence a tiling: the dragged values are in order, a boundary
  shared with a neighbour moves into that neighbour without reaching its far side (or
  stays), and the outer boundaries of the first and the last segment stay.
\<close>

definition dragKeepsTiling :: "Segment \<Rightarrow> PhonemeData list \<Rightarrow> bool" where
  "dragKeepsTiling segment ps =
     (case id' segment of
        None \<Rightarrow> True
      | Some index \<Rightarrow>
          if index < 0 \<or> index \<ge> int (length ps) then True
          else
            (let i = nat index; s = startTime segment; e = endTime segment
             in s < e
                \<and> (if i = 0 then s = start (ps ! 0)
                    else start (ps ! (i - 1)) < s \<and> s \<le> end' (ps ! (i - 1)))
                \<and> (if i + 1 = length ps then e = end' (ps ! i)
                    else start (ps ! (i + 1)) \<le> e \<and> e < end' (ps ! (i + 1)))))"

text \<open>
  The sessions the invariants are proved for: every drag comes while the sequence is
  still the one the drag listener reads, and keeps it a tiling.
\<close>

fun editsKeepTiling :: "edit list \<Rightarrow> editor \<Rightarrow> bool" where
  "editsKeepTiling [] st = True"
| "editsKeepTiling (DragEnd segment # es) st =
     (listenerPhonemes st = phonemes st
      \<and> dragKeepsTiling segment (phonemes st)
      \<and> editsKeepTiling es (applyEdit (DragEnd segment) st))"
| "editsKeepTiling (e # es) st = editsKeepTiling es (applyEdit e st)"

section \<open>Detection results and the interchange JSON (actions/rhubarb.ts, lib/rhubarb-api.ts)\<close>

text \<open>
  \<^verbatim>\<open>
  interface RhubarbResult {
    metadata: { soundFile: string; duration: number };
    mouthCues: Array<{ start: number; end: number; value: string }>;
  }
  \<close>
\<close>

record MouthCue =
  cue_start :: real
  cue_end :: real
  cue_value :: string

record Metadata =
  soundFile :: string
  duration :: real

record RhubarbResult =
  metadata :: Metadata
  mouthCues :: "MouthCue list"

text \<open>
  \<^verbatim>\<open>
  const phonemes: PhonemeData[] = result.mouthCues.map(cue => ({
    start: cue.start, end: cue.end, value: cue.value as MouthShape }));
  \<close>
  The page installs them with \<^verbatim>\<open>setEditablePhonemes(result.phonemes)\<close>.
\<close>

definition seedPhonemes :: "RhubarbResult \<Rightarrow> PhonemeData list" where
  "seedPhonemes result =
     map (\<lambda>cue. \<lparr>start = cue_start cue, end' = cue_end cue, value' = cue_value cue\<rparr>)
       (mouthCues result)"

text \<open>
  The value handed to \<^verbatim>\<open>JSON.stringify(output, null, 2)\<close>, keys in the order of the
  object literal. The rendering of the numbers as text is not modelled.
\<close>

datatype json =
    JNumber real
  | JString string
  | JArray "json list"
  | JObject "(string \<times> json) list"

definition exportPhonemeJSON :: "PhonemeData list \<Rightarrow> real \<Rightarrow> json" where
  "exportPhonemeJSON ps dur =
     JObject
       [(''metadata'', JObject [(''soundFile'', JString ''audio.wav''), (''duration'', JNumber dur)]),
        (''mouthCues'',
           JArray (map (\<lambda>p. JObject [(''start'', JNumber (start p)),
                                      (''end'', JNumber (end' p)),
                                      (''value'', JString (value' p))]) ps))]"

text \<open>The cues of a detection result as the interchange format writes them.\<close>

definition cueJSON :: "MouthCue \<Rightarrow> json" where
  "cueJSON cue =
     JObject [(''start'', JNumber (cue_start cue)),
              (''end'', JNumber (cue_end cue)),
              (''value'', JString (cue_value cue))]"

section \<open>The audio processor (hooks/useAudioProcessor.ts)\<close>

datatype ProcessingStatus = StatusIdle | StatusProcessing | StatusSuccess | StatusError

text \<open>
  The hook's state: \<^verbatim>\<open>status\<close>, \<^verbatim>\<open>error\<close>, \<^verbatim>\<open>result\<close> and the guard
  \<^verbatim>\<open>processingRef.current\<close>. The result type is left open.
\<close>

record 'r processor =
  status :: ProcessingStatus
  error :: "string option"
  result :: "'r option"
  processingRef :: bool

definition initialProcessor :: "'r processor" where
  "initialProcessor =
     \<lparr>status = StatusIdle, error = None, result = None, processingRef = False\<rparr>"

text \<open>
  \<^verbatim>\<open>processAudio\<close> is asynchronous. Its first part runs up to the \<^verbatim>\<open>await\<close>:
  \<^verbatim>\<open>
  if (processingRef.current) { console.warn(...); return null; }
  processingRef.current = true;
  setStatus('processing');
  setError(null);
  \<close>
  It either returns \<^verbatim>\<open>null\<close> at once or leaves the call pending.
\<close>

datatype 'r outcome = Returned "'r option" | Pending

definition processAudio_begin :: "'r processor \<Rightarrow> 'r outcome \<times> 'r processor" where
  "processAudio_begin st =
     (if processingRef st then (Returned None, st)
      else (Pending,
            st\<lparr>processingRef := True, status := StatusProcessing, error := None\<rparr>))"

text \<open>
  The second part runs when the awaited work settles, with its result (\<open>Inr\<close>) or the
  message of the exception it threw (\<open>Inl\<close>); \<^verbatim>\<open>finally\<close> releases the guard.
\<close>

definition processAudio_settle ::
  "string + 'r \<Rightarrow> 'r processor \<Rightarrow> 'r option \<times> 'r processor" where
  "processAudio_settle settled st =
     (case settled of
        Inr r \<Rightarrow>
          (Some r, st\<lparr>result := Some r, status := StatusSuccess, processingRef := False\<rparr>)
      | Inl message \<Rightarrow>
          (None, st\<lparr>error := Some message, status := StatusError, processingRef := False\<rparr>))"

section \<open>Playback and its arbitration (hooks/useAudioPlayback.ts, the page)\<close>

text \<open>The \<^verbatim>\<open>HTMLAudioElement\<close> behind \<^verbatim>\<open>audioRef\<close>: whether it is paused, its position,
  and its duration (\<open>None\<close> is \<^verbatim>\<open>NaN\<close>, before the metadata is loaded).\<close>

record AudioElement =
  paused :: bool
  position :: real
  el_duration :: "real option"

text \<open>The state of \<^verbatim>\<open>useAudioPlayback\<close>. The hook's \<^verbatim>\<open>currentTime\<close> is \<open>displayedTime\<close>
  here, and its \<^verbatim>\<open>duration\<close> is \<open>pb_duration\<close>.\<close>

record playback =
  isPlaying :: bool
  displayedTime :: real
  pb_duration :: real
  isLoaded :: bool
  audioRef :: "AudioElement option"

text \<open>
  \<^verbatim>\<open>
  if (!audioRef.current) return;
  audioRef.current.pause();
  setIsPlaying(false);
  \<close>
\<close>

definition pause :: "playback \<Rightarrow> playback" where
  "pause pb =
     (case audioRef pb of
        None \<Rightarrow> pb
      | Some a \<Rightarrow> pb\<lparr>audioRef := Some (a\<lparr>paused := True\<rparr>), isPlaying := False\<rparr>)"

text \<open>
  \<^verbatim>\<open>
  if (!audioRef.current) return;
  try { await audioRef.current.play(); setIsPlaying(true); ... } catch (error) { ... }
  \<close>
  \<open>granted\<close> says whether the browser's \<^verbatim>\<open>play()\<close> promise resolves.
\<close>

definition play :: "bool \<Rightarrow> playback \<Rightarrow> playback" where
  "play granted pb =
     (case audioRef pb of
        None \<Rightarrow> pb
      | Some a \<Rightarrow>
          if granted then pb\<lparr>audioRef := Some (a\<lparr>paused := False\<rparr>), isPlaying := True\<rparr>
          else pb)"

definition togglePlayPause :: "bool \<Rightarrow> playback \<Rightarrow> playback" where
  "togglePlayPause granted pb = (if isPlaying pb then pause pb else play granted pb)"

text \<open>
  \<^verbatim>\<open>
  if (!audioRef.current) return;
  const clampedTime = Math.max(0, Math.min(time, audioRef.current.duration || 0));
  audioRef.current.currentTime = clampedTime;
  setCurrentTime(clampedTime);
  \<close>
\<close>

definition seek :: "real \<Rightarrow> playback \<Rightarrow> playback" where
  "seek time pb =
     (case audioRef pb of
        None \<Rightarrow> pb
      | Some a \<Rightarrow>
          (let clampedTime = max 0 (min time (case el_duration a of None \<Rightarrow> 0 | Some d \<Rightarrow> d))
           in pb\<lparr>audioRef := Some (a\<lparr>position := clampedTime\<rparr>),
                 displayedTime := clampedTime\<rparr>))"

datatype player = Timeline | Editor

text \<open>The page holds \<^verbatim>\<open>activePlayer\<close> and the overview transport \<^verbatim>\<open>playback\<close>.\<close>

record page =
  activePlayer :: "player option"
  overview :: playback

text \<open>
  \<^verbatim>\<open>
  if (activePlayer === 'editor') { playback.seek(time); }
  \<close>
\<close>

definition handleEditorTimeUpdate :: "real \<Rightarrow> page \<Rightarrow> page" where
  "handleEditorTimeUpdate time pg =
     (if activePlayer pg = Some Editor then pg\<lparr>overview := seek time (overview pg)\<rparr> else pg)"

text \<open>
  \<^verbatim>\<open>
  if (isPlaying) {
      setActivePlayer('editor');
      if (playback.isPlaying) { playback.pause(); }
  } else {
      if (activePlayer === 'editor') { setActivePlayer(null); }
  }
  \<close>
\<close>

definition handleEditorPlayStateChange :: "bool \<Rightarrow> page \<Rightarrow> page" where
  "handleEditorPlayStateChange playing pg =
     (if playing then
        (let pg' = pg\<lparr>activePlayer := Some Editor\<rparr>
         in if isPlaying (overview pg) then pg'\<lparr>overview := pause (overview pg)\<rparr> else pg')
      else
        (if activePlayer pg = Some Editor then pg\<lparr>activePlayer := None\<rparr> else pg))"

text \<open>
  \<^verbatim>\<open>
  if (!playback.isPlaying) { setActivePlayer('timeline'); } else { setActivePlayer(null); }
  playback.togglePlayPause();
  \<close>
\<close>

definition handleTimelinePlayPause :: "bool \<Rightarrow> page \<Rightarrow> page" where
  "handleTimelinePlayPause granted pg =
     (let pg = (if \<not> isPlaying (overview pg) then pg\<lparr>activePlayer := Some Timeline\<rparr>
                else pg\<lparr>activePlayer := None\<rparr>)
      in pg\<lparr>overview := togglePlayPause granted (overview pg)\<rparr>)"

text \<open>
  The two transports together. The detail transport is the editor's own audio element,
  driven by the waveform widget's player. The editor declares no
  \<^verbatim>\<open>onPlayStateChange\<close> and no \<^verbatim>\<open>onTimeUpdate\<close> prop; its listeners keep the play state and
  the time to itself:
  \<^verbatim>\<open>
  peaks.on("player.timeupdate", (time: number) => { setCurrentTime(time); });
  peaks.on("player.playing", () => { setIsPlaying(true); });
  peaks.on("player.pause", () => { setIsPlaying(false); });
  \<close>
  So the page's \<^verbatim>\<open>handleEditorPlayStateChange\<close> and \<^verbatim>\<open>handleEditorTimeUpdate\<close> are passed
  to the editor and never called. \<open>editorIsPlaying\<close> and \<open>editorCurrentTime\<close> are the
  editor's \<^verbatim>\<open>isPlaying\<close> and \<^verbatim>\<open>currentTime\<close>.
\<close>

record transports =
  pageState :: page
  editorIsPlaying :: bool
  editorCurrentTime :: real

text \<open>The events of the two transports: the three player events of the editor, and a
  press of the overview's play button (\<^verbatim>\<open>onPlayPause={handleTimelinePlayPause}\<close>).\<close>

datatype transport_event =
    PlayerPlaying
  | PlayerPause
  | PlayerTimeUpdate real
  | TimelinePlayPause bool

fun transportStep :: "transport_event \<Rightarrow> transports \<Rightarrow> transports" where
  "transportStep PlayerPlaying s = s\<lparr>editorIsPlaying := True\<rparr>"
| "transportStep PlayerPause s = s\<lparr>editorIsPlaying := False\<rparr>"
| "transportStep (PlayerTimeUpdate time) s = s\<lparr>editorCurrentTime := time\<rparr>"
| "transportStep (TimelinePlayPause granted) s =
     s\<lparr>pageState := handleTimelinePlayPause granted (pageState s)\<rparr>"

text \<open>The overview sounds when its audio element is not paused.\<close>

definition overviewAudible :: "page \<Rightarrow> bool" where
  "overviewAudible pg = (case audioRef (overview pg) of None \<Rightarrow> False | Some a \<Rightarrow> \<not> paused a)"

text \<open>The editor sounds while its player is playing.\<close>

definition bothAudible :: "transports \<Rightarrow> bool" where
  "bothAudible s = (editorIsPlaying s \<and> overviewAudible (pageState s))"

text \<open>The hook keeps \<^verbatim>\<open>isPlaying\<close> in step with the element: it is set together with
  \<^verbatim>\<open>play()\<close> and \<^verbatim>\<open>pause()\<close>, and cleared when the element is replaced or dropped.\<close>

definition playbackInStep :: "playback \<Rightarrow> bool" where
  "playbackInStep pb =
     (case audioRef pb of None \<Rightarrow> \<not> isPlaying pb | Some a \<Rightarrow> isPlaying pb = (\<not> paused a))"

text \<open>A page whose overview has a loaded audio element of duration \<open>d\<close>, at rest.\<close>

definition loadedPage :: "real \<Rightarrow> page" where
  "loadedPage d =
     \<lparr>activePlayer = None,
      overview = \<lparr>isPlaying = False, displayedTime = 0, pb_duration = d, isLoaded = True,
                  audioRef = Some \<lparr>paused = True, position = 0, el_duration = Some d\<rparr>\<rparr>\<rparr>"

section \<open>Sample sequences and sessions\<close>

text \<open>The three-segment sequence of one second used in the worked scenarios, an editing
  session on it that goes through all six mutations (the drag first, while the
  sequence is the one the editor was mounted with), and a two-segment sequence.\<close>

definition scenario1 :: "PhonemeData list" where
  "scenario1 =
     [\<lparr>start = 0, end' = 0.15, value' = ''X''\<rparr>,
      \<lparr>start = 0.15, end' = 0.30, value' = ''B''\<rparr>,
      \<lparr>start = 0.30, end' = 1.0, value' = ''A''\<rparr>]"

definition session1 :: "edit list" where
  "session1 =
     [DragEnd \<lparr>id' = Some 1, startTime = 0.1, endTime = 0.4\<rparr>,
      TimeUpdate 0.2, SplitAtPlayhead,
      MergeWithNext, DeleteSegment (Some 0), SegmentClick (Some 1), ChangeShape ''C'',
      DeleteBoundary 0]"

text \<open>The editor on \<open>scenario1\<close> after a split at 0.20: the live sequence has four segments,
  the drag listener still reads the three it was registered with.\<close>

definition afterSplit :: editor where
  "afterSplit = splitAtPlayhead ((initialEditor scenario1)\<lparr>currentTime := 0.2\<rparr>)"

text \<open>A sequence written with decimal literals, as the binary64 values the literals
  denote.\<close>

definition binary64Sequence :: "PhonemeData list \<Rightarrow> PhonemeData list" where
  "binary64Sequence ps =
     map (\<lambda>p. p\<lparr>start := round64 (start p), end' := round64 (end' p)\<rparr>) ps"

definition twoSegments :: "PhonemeData list" where
  "twoSegments = [\<lparr>start = 0, end' = 0.5, value' = ''A''\<rparr>, \<lparr>start = 0.5, end' = 1, value' = ''B''\<rparr>]"

section \<open>Rounding keeps the sign\<close>

lemma ulp_pos: "0 < ulp x"
  by (simp add: ulp_def)

lemma roundHalfEven_nonpos: "q \<le> 0 \<Longrightarrow> roundHalfEven q \<le> 0"
proof -
  assume q: "q \<le> 0"
  show ?thesis
  proof (cases "q = 0")
    case True
    then show ?thesis by (simp add: roundHalfEven_def)
  next
    case False
    with q have "q < 0" by simp
    then have "\<lfloor>q\<rfloor> \<le> - 1" by (simp add: floor_le_iff)
    then show ?thesis by (auto simp: roundHalfEven_def Let_def)
  qed
qed

lemma round64_pos: "0 < round64 x \<Longrightarrow> 0 < x"
proof (rule ccontr)
  assume p: "0 < round64 x" and "\<not> 0 < x"
  then have x: "x \<le> 0" by simp
  then have "x / ulp x \<le> 0" using ulp_pos[of x] by (simp add: divide_nonpos_pos)
  then have "roundHalfEven (x / ulp x) \<le> 0" by (rule roundHalfEven_nonpos)
  then have "of_int (roundHalfEven (x / ulp x)) * ulp x \<le> 0"
    using ulp_pos[of x] by (simp add: mult_nonpos_nonneg)
  with p show False by (simp add: round64_def split: if_splits)
qed

text \<open>The literal \<^verbatim>\<open>0.02\<close> denotes 5764607523034235 / 2^58, a little more than 0.02.\<close>

lemma round64_0_02: "round64 0.02 = 5764607523034235 / 2 ^ 58"
  by code_simp

lemma round64_0_02_pos: "0 < round64 0.02"
  unfolding round64_0_02 by simp

lemma guard_passed_imp_less:
  "\<not> fsub a b < round64 0.02 \<Longrightarrow> b < a"
proof -
  assume "\<not> fsub a b < round64 0.02"
  with round64_0_02_pos have "0 < round64 (a - b)" by (simp add: fsub_def)
  then have "0 < a - b" by (rule round64_pos)
  then show ?thesis by simp
qed

section \<open>Tilings\<close>

lemma tiles_append:
  "tiles lo hi (xs @ ys) \<longleftrightarrow> (\<exists>mid. tiles lo mid xs \<and> tiles mid hi ys)"
  by (induction xs arbitrary: lo) auto

lemma tiles_le: "tiles lo hi ps \<Longrightarrow> lo \<le> hi"
  by (induction ps arbitrary: lo) fastforce+

lemma tiles_start_ge: "tiles lo hi ps \<Longrightarrow> p \<in> set ps \<Longrightarrow> lo \<le> start p"
proof (induction ps arbitrary: lo)
  case Nil
  then show ?case by simp
next
  case (Cons q ps)
  then show ?case by fastforce
qed

lemma tiles_sorted: "tiles lo hi ps \<Longrightarrow> sortedByStart ps"
  unfolding sortedByStart_def
proof (induction ps arbitrary: lo)
  case Nil
  then show ?case by simp
next
  case (Cons q ps)
  then have "\<forall>p \<in> set ps. start q \<le> start p"
    using tiles_start_ge[of "end' q" hi ps] by fastforce
  with Cons show ?case by auto
qed

lemma tiles_positive: "tiles lo hi ps \<Longrightarrow> positiveLength ps"
  unfolding positiveLength_def
  by (induction ps arbitrary: lo) auto

lemma tiles_contiguous: "tiles lo hi ps \<Longrightarrow> contiguous ps"
  by (induction ps arbitrary: lo rule: contiguous.induct) auto

lemma tiles_hd: "tiles lo hi ps \<Longrightarrow> ps \<noteq> [] \<Longrightarrow> start (hd ps) = lo"
  by (cases ps) auto

lemma tiles_last: "tiles lo hi ps \<Longrightarrow> ps \<noteq> [] \<Longrightarrow> end' (last ps) = hi"
  by (induction ps arbitrary: lo) (auto split: if_splits)

lemma contiguous_tiles:
  "ps \<noteq> [] \<Longrightarrow> contiguous ps \<Longrightarrow> positiveLength ps \<Longrightarrow> tiles (start (hd ps)) (end' (last ps)) ps"
  unfolding positiveLength_def
  by (induction ps rule: contiguous.induct) auto

lemma validSequence_tiles:
  "validSequence d ps \<longleftrightarrow> ps \<noteq> [] \<and> tiles 0 d ps"
proof
  assume v: "validSequence d ps"
  then have "tiles (start (hd ps)) (end' (last ps)) ps"
    using contiguous_tiles[of ps] by (simp add: validSequence_def)
  with v show "ps \<noteq> [] \<and> tiles 0 d ps" by (simp add: validSequence_def)
next
  assume "ps \<noteq> [] \<and> tiles 0 d ps"
  then have n: "ps \<noteq> []" and t: "tiles 0 d ps" by simp_all
  show "validSequence d ps"
    unfolding validSequence_def
    using n tiles_sorted[OF t] tiles_positive[OF t] tiles_contiguous[OF t]
      tiles_hd[OF t n] tiles_last[OF t n]
    by simp
qed

section \<open>The mutations on a sequence cut at the edited index\<close>

lemma split_at_index:
  assumes "i < length ps"
  shows "\<exists>xs ys. ps = xs @ ps ! i # ys \<and> length xs = i"
proof (intro exI conjI)
  show "ps = take i ps @ ps ! i # drop (Suc i) ps"
    using assms by (simp add: id_take_nth_drop)
  show "length (take i ps) = i" using assms by simp
qed

lemma split_at_two:
  assumes "Suc i < length ps"
  shows "\<exists>xs ys. ps = xs @ ps ! i # ps ! Suc i # ys \<and> length xs = i"
proof (intro exI conjI)
  have "ps = take i ps @ ps ! i # drop (Suc i) ps"
    using assms by (simp add: id_take_nth_drop)
  also have "drop (Suc i) ps = ps ! Suc i # drop (Suc (Suc i)) ps"
    using assms by (simp add: Cons_nth_drop_Suc)
  finally show "ps = take i ps @ ps ! i # ps ! Suc i # drop (Suc (Suc i)) ps" .
  show "length (take i ps) = i" using assms by simp
qed

lemma tiles_merge:
  "tiles lo hi (xs @ a # b # ys) \<Longrightarrow> start m = start a \<Longrightarrow> end' m = end' b
   \<Longrightarrow> tiles lo hi (xs @ m # ys)"
  by (auto simp: tiles_append)

lemma tiles_split:
  "tiles lo hi (xs @ a # ys) \<Longrightarrow> start a < t \<Longrightarrow> t < end' a
   \<Longrightarrow> tiles lo hi (xs @ \<lparr>start = start a, end' = t, value' = v\<rparr>
                          # \<lparr>start = t, end' = end' a, value' = w\<rparr> # ys)"
  by (auto simp: tiles_append)

lemma tiles_delete_inner:
  "tiles lo hi (xs @ l # a # ys) \<Longrightarrow> tiles lo hi (xs @ l\<lparr>end' := end' a\<rparr> # ys)"
  by (auto simp: tiles_append)

lemma tiles_delete_first:
  "tiles lo hi (a # r # ys) \<Longrightarrow> tiles lo hi (r\<lparr>start := start a\<rparr> # ys)"
  by auto

lemma tiles_relabel:
  "tiles lo hi ps \<Longrightarrow> tiles lo hi (ps[i := (ps ! i)\<lparr>value' := v\<rparr>])"
proof (induction ps arbitrary: i lo)
  case Nil
  then show ?case by simp
next
  case (Cons p ps)
  then show ?case by (cases i) auto
qed

lemma splice_mid [simp]:
  "splice (length xs) n items (xs @ ys) = xs @ items @ drop n ys"
  by (simp add: splice_def)

lemma deletePhoneme_inner:
  "deletePhoneme (Suc (length xs)) (xs @ l # a # ys) = xs @ l\<lparr>end' := end' a\<rparr> # ys"
proof -
  have "splice (Suc (length xs)) 1 [] (xs @ l # a # ys) = xs @ l # ys"
    using splice_mid[of "xs @ [l]" 1 "[]" "a # ys"] by simp
  then show ?thesis
    by (simp add: deletePhoneme_def Let_def nth_append list_update_append)
qed

lemma deletePhoneme_first:
  "deletePhoneme 0 (a # r # ys) = r\<lparr>start := start a\<rparr> # ys"
  by (simp add: deletePhoneme_def splice_def)

lemma dragPhonemes_inner:
  "dragPhonemes (Suc (length xs)) s e (xs @ l # a # r # ys)
     = xs @ (if s < end' l then l\<lparr>end' := s\<rparr> else l)
          # a\<lparr>start := s, end' := e\<rparr>
          # (if e > start r then r\<lparr>start := e\<rparr> else r) # ys"
  by (simp add: dragPhonemes_def Let_def nth_append list_update_append)

lemma dragPhonemes_first:
  "dragPhonemes 0 s e (a # r # ys)
     = a\<lparr>start := s, end' := e\<rparr> # (if e > start r then r\<lparr>start := e\<rparr> else r) # ys"
  by (simp add: dragPhonemes_def Let_def)

lemma dragPhonemes_last:
  "dragPhonemes (Suc (length xs)) s e (xs @ [l, a])
     = xs @ [if s < end' l then l\<lparr>end' := s\<rparr> else l, a\<lparr>start := s, end' := e\<rparr>]"
  by (simp add: dragPhonemes_def Let_def nth_append list_update_append)

lemma dragPhonemes_single:
  "dragPhonemes 0 s e [a] = [a\<lparr>start := s, end' := e\<rparr>]"
  by (simp add: dragPhonemes_def Let_def)

section \<open>Each mutation keeps a valid sequence valid\<close>

lemma phonemes_commit [simp]:
  "phonemes (onPhonemesChange newPhonemes (addToHistory newPhonemes' descr st)) = newPhonemes"
  by (simp add: onPhonemesChange_def)

lemma phonemes_commit_from [simp]:
  "phonemes (onPhonemesChange newPhonemes (addToHistoryFrom i newPhonemes' descr st))
     = newPhonemes"
  by (simp add: onPhonemesChange_def)

lemma addToHistory_fresh:
  "addToHistory newPhonemes descr st = addToHistoryFrom (historyIndex st) newPhonemes descr st"
  by (simp add: addToHistory_def addToHistoryFrom_def)

subsection \<open>Deleting a segment\<close>

lemma tiles_deletePhoneme:
  assumes t: "tiles lo hi ps" and i: "i < length ps" and n: "1 < length ps"
  shows "tiles lo hi (deletePhoneme i ps)"
proof (cases i)
  case 0
  from n obtain a r ys where "ps = a # r # ys"
    by (cases ps; cases "tl ps") auto
  with t 0 show ?thesis
    using tiles_delete_first[of lo hi a r ys] by (simp add: deletePhoneme_first)
next
  case (Suc k)
  with i have "Suc k < length ps" by simp
  from split_at_two[OF this] obtain xs ys
    where ps: "ps = xs @ ps ! k # ps ! Suc k # ys" and len: "length xs = k" by blast
  define l where "l = ps ! k"
  define a where "a = ps ! Suc k"
  from ps have ps': "ps = xs @ l # a # ys" by (simp add: l_def a_def)
  have "deletePhoneme i ps = xs @ l\<lparr>end' := end' a\<rparr> # ys"
    using deletePhoneme_inner[of xs l a ys] by (simp add: ps' Suc len)
  moreover have "tiles lo hi (xs @ l\<lparr>end' := end' a\<rparr> # ys)"
    using t tiles_delete_inner[of lo hi xs l a ys] by (simp add: ps')
  ultimately show ?thesis by simp
qed

lemma length_deletePhoneme:
  "i < length ps \<Longrightarrow> length (deletePhoneme i ps) = length ps - 1"
  by (auto simp: deletePhoneme_def splice_def Let_def)

lemma valid_deleteSegment:
  assumes "validSequence d (phonemes st)"
  shows "validSequence d (phonemes (deleteSegment segmentId st))"
proof -
  have "validSequence d (deletePhoneme (nat index) (phonemes st))"
    if "0 \<le> index" "index < int (length (phonemes st))" "1 < length (phonemes st)" for index
  proof -
    from that have i: "nat index < length (phonemes st)" by simp
    from assms have "tiles 0 d (phonemes st)" by (simp add: validSequence_tiles)
    from tiles_deletePhoneme[OF this i that(3)] length_deletePhoneme[OF i] that(3)
    show ?thesis by (auto simp: validSequence_tiles)
  qed
  with assms show ?thesis
    by (auto simp: deleteSegment_def Let_def not_le not_less split: option.splits)
qed

subsection \<open>Merging and relabelling\<close>

lemma tiles_merged:
  assumes t: "tiles lo hi ps" and i: "Suc i < length ps"
  shows "tiles lo hi (splice i 2 [\<lparr>start = start (ps ! i), end' = end' (ps ! Suc i), value' = v\<rparr>] ps)"
proof -
  from split_at_two[OF i] obtain xs ys
    where ps: "ps = xs @ ps ! i # ps ! Suc i # ys" and len: "length xs = i" by blast
  define a where "a = ps ! i"
  define b where "b = ps ! Suc i"
  define m where "m = \<lparr>start = start a, end' = end' b, value' = v\<rparr>"
  from ps have ps': "ps = xs @ a # b # ys" by (simp add: a_def b_def)
  have "splice i 2 [m] ps = xs @ m # ys"
    using splice_mid[of xs 2 "[m]" "a # b # ys"] by (simp add: ps' len)
  moreover have "tiles lo hi (xs @ m # ys)"
    using t tiles_merge[of lo hi xs a b ys m] by (simp add: ps' m_def)
  ultimately show ?thesis by (simp add: m_def a_def b_def)
qed

lemma valid_mergeWithNext:
  assumes "validSequence d (phonemes st)"
  shows "validSequence d (phonemes (mergeWithNext st))"
proof -
  from assms have t: "tiles 0 d (phonemes st)" by (simp add: validSequence_tiles)
  have "validSequence d (splice (nat index) 2
           [\<lparr>start = start (phonemes st ! nat index), end' = end' (phonemes st ! (nat index + 1)),
             value' = v\<rparr>] (phonemes st))"
    if "0 \<le> index" "index < int (length (phonemes st)) - 1" for index v
  proof -
    from that have "Suc (nat index) < length (phonemes st)" by simp
    from tiles_merged[OF t this, of v] show ?thesis
      by (simp add: validSequence_tiles splice_def)
  qed
  with assms show ?thesis
    by (auto simp: mergeWithNext_def Let_def not_le not_less split: option.splits)
qed

lemma valid_deleteBoundary:
  assumes "validSequence d (phonemes st)"
  shows "validSequence d (phonemes (deleteBoundary boundaryIndex st))"
proof -
  from assms have t: "tiles 0 d (phonemes st)" by (simp add: validSequence_tiles)
  have "validSequence d (splice (nat index) 2
           [\<lparr>start = start (phonemes st ! nat index), end' = end' (phonemes st ! (nat index + 1)),
             value' = v\<rparr>] (phonemes st))"
    if "0 \<le> index" "index < int (length (phonemes st)) - 1" for index v
  proof -
    from that have "Suc (nat index) < length (phonemes st)" by simp
    from tiles_merged[OF t this, of v] show ?thesis
      by (simp add: validSequence_tiles splice_def)
  qed
  with assms show ?thesis
    by (auto simp: deleteBoundary_def Let_def not_le not_less)
qed

lemma valid_changeSelectedShape:
  assumes "validSequence d (phonemes st)"
  shows "validSequence d (phonemes (changeSelectedShape newShape st))"
  using assms tiles_relabel[of 0 d "phonemes st"]
  by (auto simp: changeSelectedShape_def Let_def validSequence_tiles split: option.splits)

subsection \<open>Splitting\<close>

lemma findIndex_None: "findIndex P xs = None \<longleftrightarrow> (\<forall>x \<in> set xs. \<not> P x)"
  by (induction xs) auto

lemma findIndex_Some:
  "findIndex P xs = Some i \<longleftrightarrow> i < length xs \<and> P (xs ! i) \<and> (\<forall>j < i. \<not> P (xs ! j))"
proof (induction xs arbitrary: i)
  case Nil
  then show ?case by simp
next
  case (Cons x xs)
  show ?case
  proof (cases "P x")
    case True
    then show ?thesis by (cases i) auto
  next
    case False
    show ?thesis
    proof (cases i)
      case 0
      with False show ?thesis by auto
    next
      case (Suc k)
      have "(\<forall>j < Suc k. \<not> P ((x # xs) ! j)) \<longleftrightarrow> (\<forall>j < k. \<not> P (xs ! j))"
        using False by (auto simp: less_Suc_eq_0_disj)
      with False Suc Cons.IH[of k] show ?thesis by auto
    qed
  qed
qed

lemma findIndex_first:
  assumes "i < length ps" and "P (ps ! i)" and "\<forall>j < i. \<not> P (ps ! j)"
  shows "findIndex P ps = Some i"
  using assms by (simp add: findIndex_Some)

lemma tiles_split_at:
  assumes t: "tiles lo hi ps" and i: "i < length ps"
    and lt: "start (ps ! i) < time" "time < end' (ps ! i)"
  shows "tiles lo hi (splice i 1 [\<lparr>start = start (ps ! i), end' = time, value' = v\<rparr>,
                                  \<lparr>start = time, end' = end' (ps ! i), value' = w\<rparr>] ps)"
proof -
  from split_at_index[OF i] obtain xs ys
    where ps: "ps = xs @ ps ! i # ys" and len: "length xs = i" by blast
  define a where "a = ps ! i"
  define a1 where "a1 = \<lparr>start = start a, end' = time, value' = v\<rparr>"
  define a2 where "a2 = \<lparr>start = time, end' = end' a, value' = w\<rparr>"
  from ps have ps': "ps = xs @ a # ys" by (simp add: a_def)
  have "splice i 1 [a1, a2] ps = xs @ a1 # a2 # ys"
    using splice_mid[of xs 1 "[a1, a2]" "a # ys"] by (simp add: ps' len)
  moreover from lt have "start a < time" "time < end' a" by (simp_all add: a_def)
  then have "tiles lo hi (xs @ a1 # a2 # ys)"
    using t tiles_split[of lo hi xs a ys time v w] by (simp add: ps' a1_def a2_def)
  ultimately show ?thesis by (simp add: a1_def a2_def a_def)
qed

lemma valid_splitAtPlayhead:
  assumes "validSequence d (phonemes st)"
  shows "validSequence d (phonemes (splitAtPlayhead st))"
proof (cases "findIndex (containsTime (currentTime st)) (phonemes st)")
  case None
  with assms show ?thesis by (simp add: splitAtPlayhead_def)
next
  case (Some i)
  then have i: "i < length (phonemes st)" by (simp add: findIndex_Some)
  from assms have t: "tiles 0 d (phonemes st)" by (simp add: validSequence_tiles)
  show ?thesis
  proof (cases "fsub (currentTime st) (start (phonemes st ! i)) < round64 0.02
                \<or> fsub (end' (phonemes st ! i)) (currentTime st) < round64 0.02")
    case True
    with Some assms show ?thesis by (auto simp: splitAtPlayhead_def Let_def)
  next
    case False
    then have "start (phonemes st ! i) < currentTime st" "currentTime st < end' (phonemes st ! i)"
      by (simp_all add: guard_passed_imp_less)
    from tiles_split_at[OF t i this] have "validSequence d
        (splice i 1 [\<lparr>start = start (phonemes st ! i), end' = currentTime st, value' = v\<rparr>,
                     \<lparr>start = currentTime st, end' = end' (phonemes st ! i), value' = w\<rparr>]
            (phonemes st))" for v w
      by (simp add: validSequence_tiles splice_def)
    with Some False show ?thesis by (simp add: splitAtPlayhead_def Let_def)
  qed
qed

subsection \<open>Dragging\<close>

lemma length_dragPhonemes [simp]: "length (dragPhonemes i s e ps) = length ps"
  by (simp add: dragPhonemes_def Let_def)

lemma tiles_dragPhonemes:
  assumes t: "tiles lo hi ps" and i: "i < length ps" and se: "s < e"
    and left: "if i = 0 then s = start (ps ! 0)
               else start (ps ! (i - 1)) < s \<and> s \<le> end' (ps ! (i - 1))"
    and right: "if i + 1 = length ps then e = end' (ps ! i)
                else start (ps ! (i + 1)) \<le> e \<and> e < end' (ps ! (i + 1))"
  shows "tiles lo hi (dragPhonemes i s e ps)"
proof (cases i)
  case 0
  with i obtain a zs where ps: "ps = a # zs" by (cases ps) auto
  show ?thesis
  proof (cases zs)
    case Nil
    with t se left right 0 ps show ?thesis
      by (auto simp: dragPhonemes_single)
  next
    case (Cons r ys)
    with t se left right 0 ps show ?thesis
      by (auto simp: dragPhonemes_first)
  qed
next
  case (Suc k)
  with i have "Suc k < length ps" by simp
  from split_at_two[OF this] obtain xs zs
    where ps: "ps = xs @ ps ! k # ps ! Suc k # zs" and len: "length xs = k" by blast
  define l where "l = ps ! k"
  define a where "a = ps ! Suc k"
  from ps have ps': "ps = xs @ l # a # zs" by (simp add: l_def a_def)
  from left Suc have l: "start l < s" "s \<le> end' l" by (simp_all add: l_def)
  show ?thesis
  proof (cases zs)
    case Nil
    have "i + 1 = length ps" using arg_cong[OF ps', of length] by (simp add: Nil Suc len)
    with right have "e = end' a" by (simp add: a_def Suc)
    moreover have "dragPhonemes i s e ps
       = xs @ [if s < end' l then l\<lparr>end' := s\<rparr> else l, a\<lparr>start := s, end' := e\<rparr>]"
      using dragPhonemes_last[of xs s e l a] by (simp add: ps' Nil Suc len)
    ultimately show ?thesis
      using t se l by (auto simp: ps' Nil tiles_append)
  next
    case (Cons r ys)
    have "ps ! (i + 1) = r" using arg_cong[OF ps', of "\<lambda>zs. zs ! (i + 1)"]
      by (simp add: Cons Suc len[symmetric] nth_append)
    moreover have "i + 1 \<noteq> length ps" using arg_cong[OF ps', of length]
      by (simp add: Cons Suc len)
    ultimately have r: "start r \<le> e" "e < end' r" using right by simp_all
    have "dragPhonemes i s e ps
       = xs @ (if s < end' l then l\<lparr>end' := s\<rparr> else l)
            # a\<lparr>start := s, end' := e\<rparr>
            # (if e > start r then r\<lparr>start := e\<rparr> else r) # ys"
      using dragPhonemes_inner[of xs s e l a r ys] by (simp add: ps' Cons Suc len)
    then show ?thesis
      using t se l r by (auto simp: ps' Cons tiles_append)
  qed
qed

lemma valid_handleSegmentDrag:
  assumes "validSequence d (phonemes st)" and "validSequence d cps"
    and "dragKeepsTiling segment cps"
  shows "validSequence d (phonemes (handleSegmentDrag cps ci segment st))"
proof (cases "id' segment")
  case None
  with assms show ?thesis by (simp add: handleSegmentDrag_def)
next
  case (Some index)
  show ?thesis
  proof (cases "index < 0 \<or> index \<ge> int (length cps)")
    case True
    with Some assms show ?thesis by (auto simp: handleSegmentDrag_def)
  next
    case False
    then have i: "nat index < length cps" by auto
    from assms have t: "tiles 0 d cps" and n: "cps \<noteq> []"
      by (simp_all add: validSequence_tiles)
    from assms(3) Some False have
      "startTime segment < endTime segment"
      "if nat index = 0 then startTime segment = start (cps ! 0)
       else start (cps ! (nat index - 1)) < startTime segment
            \<and> startTime segment \<le> end' (cps ! (nat index - 1))"
      "if nat index + 1 = length cps then endTime segment = end' (cps ! nat index)
       else start (cps ! (nat index + 1)) \<le> endTime segment
            \<and> endTime segment < end' (cps ! (nat index + 1))"
      by (auto simp: dragKeepsTiling_def Let_def split: if_splits)
    moreover have "dragPhonemes (nat index) (startTime segment) (endTime segment) cps \<noteq> []"
    proof
      assume "dragPhonemes (nat index) (startTime segment) (endTime segment) cps = []"
      then have "length (dragPhonemes (nat index) (startTime segment) (endTime segment) cps) = 0"
        by simp
      with n show False by simp
    qed
    ultimately
    have "validSequence d (dragPhonemes (nat index) (startTime segment) (endTime segment) cps)"
      using tiles_dragPhonemes[OF t i] by (simp add: validSequence_tiles)
    with Some False show ?thesis by (simp add: handleSegmentDrag_def Let_def)
  qed
qed

text \<open>Conversely, a drag that leaves a valid sequence valid meets \<open>dragKeepsTiling\<close>.\<close>

lemma tiles_unique: "tiles lo hi ps \<Longrightarrow> tiles lo hi' ps \<Longrightarrow> hi = hi'"
  by (induction ps arbitrary: lo) auto

lemma tiles_append_cut:
  "tiles lo hi (xs @ ys) \<Longrightarrow> tiles lo hi (xs @ zs)
   \<Longrightarrow> \<exists>mid. tiles lo mid xs \<and> tiles mid hi ys \<and> tiles mid hi zs"
  by (metis tiles_append tiles_unique)

lemma dragPhonemes_tiles_only_if:
  assumes t: "tiles lo hi ps" and i: "i < length ps"
    and t': "tiles lo hi (dragPhonemes i s e ps)"
  shows "s < e
       \<and> (if i = 0 then s = start (ps ! 0)
           else start (ps ! (i - 1)) < s \<and> s \<le> end' (ps ! (i - 1)))
       \<and> (if i + 1 = length ps then e = end' (ps ! i)
           else start (ps ! (i + 1)) \<le> e \<and> e < end' (ps ! (i + 1)))"
proof (cases i)
  case 0
  with i obtain a zs where ps: "ps = a # zs" by (cases ps) auto
  show ?thesis
  proof (cases zs)
    case Nil
    with t t' 0 ps show ?thesis
      by (auto simp: dragPhonemes_single)
  next
    case (Cons r ys)
    with t t' 0 ps show ?thesis
      by (auto simp: dragPhonemes_first split: if_splits)
  qed
next
  case (Suc k)
  with i have "Suc k < length ps" by simp
  from split_at_two[OF this] obtain xs zs
    where ps: "ps = xs @ ps ! k # ps ! Suc k # zs" and len: "length xs = k" by blast
  define l where "l = ps ! k"
  define a where "a = ps ! Suc k"
  from ps have ps': "ps = xs @ l # a # zs" by (simp add: l_def a_def)
  show ?thesis
  proof (cases zs)
    case Nil
    have n: "i + 1 = length ps" using arg_cong[OF ps', of length] by (simp add: Nil Suc len)
    have d: "dragPhonemes i s e ps
       = xs @ [if s < end' l then l\<lparr>end' := s\<rparr> else l, a\<lparr>start := s, end' := e\<rparr>]"
      using dragPhonemes_last[of xs s e l a] by (simp add: ps' Nil Suc len)
    from t have "tiles lo hi (xs @ [l, a])" by (simp add: ps' Nil)
    moreover from t' have "tiles lo hi (xs @ [if s < end' l then l\<lparr>end' := s\<rparr> else l,
                                               a\<lparr>start := s, end' := e\<rparr>])"
      by (simp add: d)
    ultimately obtain mid where "tiles mid hi [l, a]"
      "tiles mid hi [if s < end' l then l\<lparr>end' := s\<rparr> else l, a\<lparr>start := s, end' := e\<rparr>]"
      using tiles_append_cut by blast
    then have "s < e \<and> start l < s \<and> s \<le> end' l \<and> e = end' a"
      by (auto split: if_splits)
    with n Suc show ?thesis by (simp add: l_def a_def)
  next
    case (Cons r ys)
    have r: "ps ! (i + 1) = r" using arg_cong[OF ps', of "\<lambda>zs. zs ! (i + 1)"]
      by (simp add: Cons Suc len[symmetric] nth_append)
    have n: "i + 1 \<noteq> length ps" using arg_cong[OF ps', of length]
      by (simp add: Cons Suc len)
    have d: "dragPhonemes i s e ps
       = xs @ (if s < end' l then l\<lparr>end' := s\<rparr> else l)
            # a\<lparr>start := s, end' := e\<rparr>
            # (if e > start r then r\<lparr>start := e\<rparr> else r) # ys"
      using dragPhonemes_inner[of xs s e l a r ys] by (simp add: ps' Cons Suc len)
    from t have "tiles lo hi (xs @ l # a # r # ys)" by (simp add: ps' Cons)
    moreover from t' have "tiles lo hi (xs @ (if s < end' l then l\<lparr>end' := s\<rparr> else l)
            # a\<lparr>start := s, end' := e\<rparr>
            # (if e > start r then r\<lparr>start := e\<rparr> else r) # ys)"
      by (simp add: d)
    ultimately obtain mid where "tiles mid hi (l # a # r # ys)"
      "tiles mid hi ((if s < end' l then l\<lparr>end' := s\<rparr> else l)
            # a\<lparr>start := s, end' := e\<rparr>
            # (if e > start r then r\<lparr>start := e\<rparr> else r) # ys)"
      using tiles_append_cut by blast
    then have "s < e \<and> start l < s \<and> s \<le> end' l \<and> start r \<le> e \<and> e < end' r"
      by (auto split: if_splits)
    with n r Suc show ?thesis by (simp add: l_def a_def)
  qed
qed

lemma handleSegmentDrag_valid_iff:
  assumes "validSequence d (phonemes st)" and "validSequence d cps"
  shows "validSequence d (phonemes (handleSegmentDrag cps ci segment st))
         \<longleftrightarrow> dragKeepsTiling segment cps"
proof
  assume "dragKeepsTiling segment cps"
  with assms show "validSequence d (phonemes (handleSegmentDrag cps ci segment st))"
    by (rule valid_handleSegmentDrag)
next
  assume v: "validSequence d (phonemes (handleSegmentDrag cps ci segment st))"
  show "dragKeepsTiling segment cps"
  proof (cases "id' segment")
    case None
    then show ?thesis by (simp add: dragKeepsTiling_def)
  next
    case (Some index)
    show ?thesis
    proof (cases "index < 0 \<or> index \<ge> int (length cps)")
      case True
      with Some show ?thesis by (auto simp: dragKeepsTiling_def)
    next
      case False
      then have i: "nat index < length cps" by auto
      from assms have t: "tiles 0 d cps" by (simp add: validSequence_tiles)
      from v Some False have "tiles 0 d
          (dragPhonemes (nat index) (startTime segment) (endTime segment) cps)"
        by (simp add: handleSegmentDrag_def Let_def validSequence_tiles)
      from dragPhonemes_tiles_only_if[OF t i this] Some False show ?thesis
        by (auto simp: dragKeepsTiling_def Let_def split: if_splits)
    qed
  qed
qed

subsection \<open>Any event\<close>

lemma valid_applyEdit:
  assumes "validSequence d (phonemes st)" and "editsKeepTiling [e] st"
  shows "validSequence d (phonemes (applyEdit e st))"
proof (cases e)
  case (DragEnd segment)
  with assms show ?thesis by (simp add: segmentsDragend_def valid_handleSegmentDrag)
next
  case (ChangeShape newShape)
  with assms show ?thesis by (simp add: valid_changeSelectedShape)
next
  case SplitAtPlayhead
  with assms show ?thesis by (simp add: valid_splitAtPlayhead)
next
  case (DeleteSegment segmentId)
  with assms show ?thesis by (simp add: valid_deleteSegment)
next
  case MergeWithNext
  with assms show ?thesis by (simp add: valid_mergeWithNext)
next
  case (DeleteBoundary boundaryIndex)
  with assms show ?thesis by (simp add: valid_deleteBoundary)
next
  case (TimeUpdate time)
  with assms show ?thesis by simp
next
  case (SegmentClick segmentId)
  with assms show ?thesis by simp
qed

lemma editsKeepTiling_Cons:
  "editsKeepTiling (e # es) st \<longleftrightarrow> editsKeepTiling [e] st \<and> editsKeepTiling es (applyEdit e st)"
  by (cases e) simp_all

subsection \<open>The sample session\<close>

lemma scenario1_valid: "validSequence 1 (phonemes (initialEditor scenario1))"
  by (simp add: validSequence_def initialEditor_def scenario1_def sortedByStart_def positiveLength_def)

lemma session1_keeps_tiling: "editsKeepTiling session1 (initialEditor scenario1)"
  by code_simp

section \<open>History entries\<close>

lemma last_history_addToHistory:
  "last (history (addToHistory newPhonemes descr st))
     = \<lparr>h_phonemes = newPhonemes, description = descr\<rparr>"
  by (cases "slice0 (historyIndex st + 1) (history st)") (auto simp: addToHistory_def Let_def)

section \<open>Undo after a commit\<close>

text \<open>
  Once the cursor points at an entry that holds the live sequence, a commit followed by
  \<open>undo\<close> brings the live sequence back, also when the commit evicts the oldest of 50
  entries; and \<open>undo\<close> changes nothing exactly when the cursor is at most 0.
\<close>

lemma undo_noop_iff: "undo st = Inr st \<longleftrightarrow> historyIndex st \<le> 0"
proof (cases "historyIndex st > 0")
  case False
  then show ?thesis by (simp add: undo_def)
next
  case True
  have "st' \<noteq> st" if "historyIndex st' = historyIndex st - 1" for st' :: editor
    using that by auto
  with True show ?thesis
    by (auto simp: undo_def onPhonemesChange_def split: option.splits)
qed

lemma undo_after_commit:
  assumes "0 \<le> historyIndex st" and "historyIndex st < int (length (history st))"
    and "length (history st) \<le> 50"
    and "h_phonemes (history st ! nat (historyIndex st)) = phonemes st"
  shows "\<exists>st'. undo (onPhonemesChange newPhonemes (addToHistory newPhonemes descr st)) = Inr st'
              \<and> phonemes st' = phonemes st"
proof -
  define k where "k = nat (historyIndex st)"
  define e where "e = \<lparr>h_phonemes = newPhonemes, description = descr\<rparr>"
  from assms have k: "historyIndex st = int k" "k < length (history st)" "k \<le> 49"
    by (simp_all add: k_def)
  have s: "slice0 (historyIndex st + 1) (history st) = take (Suc k) (history st)"
    by (simp add: slice0_def k nat_add_distrib)
  define nh where "nh = slice0 (historyIndex st + 1) (history st) @ [e]"
  define st1 where "st1 = onPhonemesChange newPhonemes (addToHistory newPhonemes descr st)"
  have nh: "nh = take (Suc k) (history st) @ [e]" by (simp add: nh_def s)
  then have len: "length nh = k + 2" using k by simp
  have h: "history st1 = (if length nh > 50 then tl nh else nh)"
    and i: "historyIndex st1 = min (int k + 1) 49"
    by (simp_all add: st1_def onPhonemesChange_def addToHistory_def Let_def nh_def e_def k)
  have "k < length (history st1) \<and> history st1 ! k = history st ! k \<and> historyIndex st1 = int k + 1"
    if "k < 49"
    using that k by (simp add: h i len nh nth_append)
  moreover
  have "48 < length (history st1) \<and> history st1 ! 48 = history st ! 49 \<and> historyIndex st1 = 49"
    if "k = 49"
  proof -
    from that k assms(3) have "length (history st) = 50" by simp
    with that show ?thesis by (simp add: h i len nh nth_append nth_tl)
  qed
  ultimately have "\<exists>j. historyIndex st1 = int j + 1 \<and> j < length (history st1)
                       \<and> h_phonemes (history st1 ! j) = phonemes st"
    using k assms(4) by (cases "k = 49") (auto simp: k_def[symmetric])
  then obtain j where j: "historyIndex st1 = int j + 1" "j < length (history st1)"
    "h_phonemes (history st1 ! j) = phonemes st" by blast
  then have "undo st1 = Inr (onPhonemesChange (phonemes st) (st1\<lparr>historyIndex := int j\<rparr>))"
    by (simp add: undo_def at_index_def)
  then show ?thesis
    unfolding st1_def by (simp add: onPhonemesChange_def)
qed

section \<open>The overview's play state\<close>

text \<open>Playing, pausing and seeking keep \<^verbatim>\<open>isPlaying\<close> in step with the audio element,
  and seeking changes neither.\<close>

lemma playbackInStep_pause: "playbackInStep pb \<Longrightarrow> playbackInStep (pause pb)"
  by (auto simp: playbackInStep_def pause_def split: option.splits)

lemma playbackInStep_play: "playbackInStep pb \<Longrightarrow> playbackInStep (play granted pb)"
  by (auto simp: playbackInStep_def play_def split: option.splits)

lemma playbackInStep_seek: "playbackInStep pb \<Longrightarrow> playbackInStep (seek time pb)"
  by (auto simp: playbackInStep_def seek_def Let_def split: option.splits)

lemma playbackInStep_loadedPage: "playbackInStep (overview (loadedPage d))"
  by (simp add: playbackInStep_def loadedPage_def)

lemma seek_keeps_play_state:
  "isPlaying (seek time pb) = isPlaying pb
   \<and> (case audioRef (seek time pb) of None \<Rightarrow> audioRef pb = None
       | Some a' \<Rightarrow> (\<exists>a. audioRef pb = Some a \<and> paused a' = paused a))"
  by (auto simp: seek_def Let_def split: option.splits)


section \<open>Editing sessions and the invariants\<close>

text \<open>
  Claim C1, as amended. Start from a sequence that is sorted by start, contiguous and
  gapless, begins at 0, ends at the total duration and has only segments of positive
  length. After every event of an editing session made of splits, segment deletions,
  merges, boundary deletions, relabels (and the time updates and clicks between them)
  the sequence has all of these properties again. A drag-resize keeps them when it
  comes while the sequence is still the one the editor was mounted with, the dragged
  segment keeps \<open>start < end\<close>, each boundary it shares with a neighbour stays or moves
  into that neighbour short of the neighbour's far side, and the outer boundary of
  the first or last segment is not moved (\<open>editsKeepTiling\<close>).
\<close>

theorem edits_preserve_invariants:
  assumes "validSequence d (phonemes st)" and "editsKeepTiling es st"
  shows "\<forall>st' \<in> set (runEdits es st). validSequence d (phonemes st')"
  using assms
proof (induction es arbitrary: st)
  case Nil
  then show ?case by simp
next
  case (Cons e es)
  from Cons.prems(2)
  have 1: "editsKeepTiling [e] st" and 2: "editsKeepTiling es (applyEdit e st)"
    by (simp_all only: editsKeepTiling_Cons[of e es st])
  from valid_applyEdit[OF Cons.prems(1) 1]
  have v: "validSequence d (phonemes (applyEdit e st))" .
  from Cons.IH[OF v 2] v show ?case by simp
qed

text \<open>The session \<open>session1\<close> on \<open>scenario1\<close> drags, splits, merges, deletes, relabels and
  deletes a boundary; it ends with one segment over the whole second.\<close>

theorem edits_preserve_invariants_witness:
  "validSequence 1 (phonemes (initialEditor scenario1))
   \<and> editsKeepTiling session1 (initialEditor scenario1)
   \<and> list_all (\<lambda>st'. validSequence 1 (phonemes st'))
         (runEdits session1 (initialEditor scenario1))
   \<and> phonemes (last (runEdits session1 (initialEditor scenario1)))
       = [\<lparr>start = 0, end' = 1, value' = ''B''\<rparr>]"
proof -
  have "phonemes (last (runEdits session1 (initialEditor scenario1)))
          = [\<lparr>start = 0, end' = 1, value' = ''B''\<rparr>]"
    by code_simp
  with edits_preserve_invariants[OF scenario1_valid session1_keeps_tiling]
    scenario1_valid session1_keeps_tiling
  show ?thesis by (simp add: list_all_iff)
qed

text \<open>
  Claim C1 as stated fails for the drag-resize, in two ways. Dragging the start of the
  second of two segments from 0.3 to 0.4 leaves the first segment ending at 0.3: a
  gap. And after a split of \<open>scenario1\<close> at 0.20, dragging segment 1 to the interval
  from 0.1 to 0.25, which would keep the four live segments a tiling, is applied to
  the three segments the drag listener was registered with: the split is lost and
  the sequence has a gap from 0.25 to 0.3.
\<close>

theorem drag_breaks_invariants:
  "validSequence 1 [\<lparr>start = 0, end' = 0.3, value' = ''X''\<rparr>,
                    \<lparr>start = 0.3, end' = 1, value' = ''A''\<rparr>]
   \<and> \<not> validSequence 1
         (phonemes (segmentsDragend \<lparr>id' = Some 1, startTime = 0.4, endTime = 1\<rparr>
            (initialEditor [\<lparr>start = 0, end' = 0.3, value' = ''X''\<rparr>,
                            \<lparr>start = 0.3, end' = 1, value' = ''A''\<rparr>])))
   \<and> validSequence 1 (phonemes afterSplit)
   \<and> dragKeepsTiling \<lparr>id' = Some 1, startTime = 0.1, endTime = 0.25\<rparr> (phonemes afterSplit)
   \<and> phonemes (segmentsDragend \<lparr>id' = Some 1, startTime = 0.1, endTime = 0.25\<rparr> afterSplit)
       = [\<lparr>start = 0, end' = 0.1, value' = ''X''\<rparr>,
          \<lparr>start = 0.1, end' = 0.25, value' = ''B''\<rparr>,
          \<lparr>start = 0.3, end' = 1, value' = ''A''\<rparr>]
   \<and> \<not> validSequence 1
         (phonemes (segmentsDragend \<lparr>id' = Some 1, startTime = 0.1, endTime = 0.25\<rparr>
            afterSplit))"
  by code_simp

section \<open>What a drag-resize does\<close>

text \<open>
  Claim C2, as amended. A drag-resize of segment \<open>i\<close> that comes while the sequence is
  still the one the editor was mounted with sets the segment's start and end to the
  values the widget reports, without clamping: the segment has \<open>start < end\<close> exactly
  when the reported values have. The left neighbour's end is set to the new start
  only when the new start is less than it, and the right neighbour's start is set
  to the new end only when the new end is greater than it; otherwise the neighbour,
  like every other segment, is unchanged. So a boundary dragged into a neighbour
  stays shared, and a boundary dragged away from a neighbour leaves a gap.
\<close>

theorem segmentsDragend_cascade:
  assumes "listenerPhonemes st = phonemes st"
    and "id' segment = Some index" and "0 \<le> index" and "index < int (length (phonemes st))"
  shows "let ps = phonemes st; ps' = phonemes (segmentsDragend segment st);
             i = nat index; s = startTime segment; e = endTime segment
         in length ps' = length ps
            \<and> ps' ! i = (ps ! i)\<lparr>start := s, end' := e\<rparr>
            \<and> (start (ps' ! i) < end' (ps' ! i) \<longleftrightarrow> s < e)
            \<and> (0 < i \<longrightarrow>
                 ps' ! (i - 1) =
                   (if s < end' (ps ! (i - 1)) then (ps ! (i - 1))\<lparr>end' := s\<rparr>
                    else ps ! (i - 1)))
            \<and> (i + 1 < length ps \<longrightarrow>
                 ps' ! (i + 1) =
                   (if e > start (ps ! (i + 1)) then (ps ! (i + 1))\<lparr>start := e\<rparr>
                    else ps ! (i + 1)))
            \<and> (\<forall>j < length ps. j \<noteq> i \<and> j + 1 \<noteq> i \<and> j \<noteq> i + 1 \<longrightarrow> ps' ! j = ps ! j)"
proof -
  from assms have i: "nat index < length (phonemes st)" by simp
  from assms have p: "phonemes (segmentsDragend segment st)
      = dragPhonemes (nat index) (startTime segment) (endTime segment) (phonemes st)"
    by (simp add: segmentsDragend_def handleSegmentDrag_def Let_def)
  show ?thesis
    unfolding Let_def p using i
    by (auto simp: dragPhonemes_def Let_def nth_list_update)
qed

text \<open>With segment 0 ending and segment 1 starting at 0.30: dragging the start of
  segment 1 to 0.20 pulls the end of segment 0 to 0.20; dragging it to 0.40 leaves the
  end of segment 0 at 0.30.\<close>

theorem segmentsDragend_cascade_witness:
  "end' (phonemes (segmentsDragend \<lparr>id' = Some 1, startTime = 0.2, endTime = 1\<rparr>
           (initialEditor [\<lparr>start = 0, end' = 0.3, value' = ''X''\<rparr>,
                           \<lparr>start = 0.3, end' = 1, value' = ''A''\<rparr>])) ! 0) = 0.2
   \<and> end' (phonemes (segmentsDragend \<lparr>id' = Some 1, startTime = 0.4, endTime = 1\<rparr>
           (initialEditor [\<lparr>start = 0, end' = 0.3, value' = ''X''\<rparr>,
                           \<lparr>start = 0.3, end' = 1, value' = ''A''\<rparr>])) ! 0) = 0.3"
  using segmentsDragend_cascade
          [of "initialEditor [\<lparr>start = 0, end' = 0.3, value' = ''X''\<rparr>,
                              \<lparr>start = 0.3, end' = 1, value' = ''A''\<rparr>]"
              "\<lparr>id' = Some 1, startTime = 0.2, endTime = 1\<rparr>" 1]
        segmentsDragend_cascade
          [of "initialEditor [\<lparr>start = 0, end' = 0.3, value' = ''X''\<rparr>,
                              \<lparr>start = 0.3, end' = 1, value' = ''A''\<rparr>]"
              "\<lparr>id' = Some 1, startTime = 0.4, endTime = 1\<rparr>" 1]
  by (simp add: initialEditor_def Let_def)

text \<open>
  Claim C2 as stated fails on its own example: after resizing the start of segment 1
  from 0.30 to 0.40, the end of segment 0 is not 0.40, and the two segments are no
  longer contiguous. Nor does the handler clamp: asked to move the start of segment
  1, which ends at 1.0, to 1.2, it stores a segment from 1.2 to 1.0.
\<close>

theorem resize_example_counterexample:
  "end' (phonemes (segmentsDragend \<lparr>id' = Some 1, startTime = 0.4, endTime = 1\<rparr>
           (initialEditor [\<lparr>start = 0, end' = 0.3, value' = ''X''\<rparr>,
                           \<lparr>start = 0.3, end' = 1, value' = ''A''\<rparr>])) ! 0) \<noteq> 0.4
   \<and> \<not> contiguous
         (phonemes (segmentsDragend \<lparr>id' = Some 1, startTime = 0.4, endTime = 1\<rparr>
            (initialEditor [\<lparr>start = 0, end' = 0.3, value' = ''X''\<rparr>,
                            \<lparr>start = 0.3, end' = 1, value' = ''A''\<rparr>])))
   \<and> phonemes (segmentsDragend \<lparr>id' = Some 1, startTime = 1.2, endTime = 1\<rparr>
         (initialEditor [\<lparr>start = 0, end' = 0.3, value' = ''X''\<rparr>,
                         \<lparr>start = 0.3, end' = 1, value' = ''A''\<rparr>])) ! 1
       = \<lparr>start = 1.2, end' = 1, value' = ''A''\<rparr>"
  by (simp add: initialEditor_def segmentsDragend_def handleSegmentDrag_def dragPhonemes_def
        Let_def)

section \<open>Undo right after the first commit\<close>

text \<open>
  Claim C3, at the state it fails in. The editor is mounted with an empty history and
  the cursor at \<open>-1\<close>; the seeded sequence is never recorded. Deleting the boundary of
  a two-segment sequence commits the merged sequence as entry 0, and \<open>undo\<close> right
  after it changes nothing: the live sequence stays the merged one instead of
  returning to the two segments that were live before the commit.
\<close>

theorem first_commit_cannot_be_undone:
  "phonemes (initialEditor twoSegments) = twoSegments
   \<and> phonemes (deleteBoundary 0 (initialEditor twoSegments))
       = [\<lparr>start = 0, end' = 1, value' = ''A''\<rparr>]
   \<and> historyIndex (deleteBoundary 0 (initialEditor twoSegments)) = 0
   \<and> undo (deleteBoundary 0 (initialEditor twoSegments))
       = Inr (deleteBoundary 0 (initialEditor twoSegments))"
  by (simp add: initialEditor_def twoSegments_def deleteBoundary_def undo_def addToHistory_def
        slice0_def Let_def splice_def onPhonemesChange_def)

section \<open>Split at the play-head\<close>

text \<open>
  Claim C4, as amended. The split looks for the first segment with \<open>start \<le> t < end\<close>,
  \<open>t\<close> being the play-head time. If no segment contains \<open>t\<close>, or \<open>t\<close> is within 20 ms
  of the start or the end of that segment as the code computes it (the difference
  \<open>t - start\<close> or \<open>end - t\<close>, rounded to binary64, is less than the binary64 value of
  0.02), the editor state is left as it is (in particular no history entry is
  pushed). Otherwise that segment is replaced by two segments that meet at \<open>t\<close> and
  carry its label, the right-hand piece (index one past the original) becomes the
  selected segment, and the new sequence is pushed on the history as
  "Split segment".
\<close>

theorem splitAtPlayhead_spec:
  fixes st :: editor
  defines "ps \<equiv> phonemes st" and "t \<equiv> currentTime st"
  shows "((\<forall>p \<in> set ps. \<not> (start p \<le> t \<and> t < end' p)) \<longrightarrow> splitAtPlayhead st = st)
       \<and> (\<forall>i < length ps.
            start (ps ! i) \<le> t \<and> t < end' (ps ! i)
            \<and> (\<forall>j < i. \<not> (start (ps ! j) \<le> t \<and> t < end' (ps ! j))) \<longrightarrow>
            (if fsub t (start (ps ! i)) < round64 0.02 \<or> fsub (end' (ps ! i)) t < round64 0.02
             then splitAtPlayhead st = st
             else phonemes (splitAtPlayhead st) =
                    take i ps
                    @ [\<lparr>start = start (ps ! i), end' = t, value' = value' (ps ! i)\<rparr>,
                       \<lparr>start = t, end' = end' (ps ! i), value' = value' (ps ! i)\<rparr>]
                    @ drop (Suc i) ps
                  \<and> selectedSegmentId (splitAtPlayhead st) = Some (int i + 1)
                  \<and> last (history (splitAtPlayhead st)) =
                      \<lparr>h_phonemes = phonemes (splitAtPlayhead st),
                       description = ''Split segment''\<rparr>))"
proof (intro conjI impI allI)
  assume "\<forall>p \<in> set ps. \<not> (start p \<le> t \<and> t < end' p)"
  then have "findIndex (containsTime t) ps = None"
    by (simp add: findIndex_None containsTime_def)
  then show "splitAtPlayhead st = st"
    by (simp add: splitAtPlayhead_def ps_def t_def)
next
  fix i
  assume i: "i < length ps"
    and c: "start (ps ! i) \<le> t \<and> t < end' (ps ! i)
            \<and> (\<forall>j < i. \<not> (start (ps ! j) \<le> t \<and> t < end' (ps ! j)))"
  then have f: "findIndex (containsTime (currentTime st)) (phonemes st) = Some i"
    unfolding ps_def t_def by (intro findIndex_first) (simp_all add: containsTime_def)
  show "if fsub t (start (ps ! i)) < round64 0.02 \<or> fsub (end' (ps ! i)) t < round64 0.02
        then splitAtPlayhead st = st
        else phonemes (splitAtPlayhead st) =
               take i ps
               @ [\<lparr>start = start (ps ! i), end' = t, value' = value' (ps ! i)\<rparr>,
                  \<lparr>start = t, end' = end' (ps ! i), value' = value' (ps ! i)\<rparr>]
               @ drop (Suc i) ps
             \<and> selectedSegmentId (splitAtPlayhead st) = Some (int i + 1)
             \<and> last (history (splitAtPlayhead st)) =
                 \<lparr>h_phonemes = phonemes (splitAtPlayhead st),
                  description = ''Split segment''\<rparr>"
    unfolding ps_def t_def
    by (simp add: splitAtPlayhead_def f Let_def splice_def onPhonemesChange_def
          last_history_addToHistory)
qed

text \<open>On \<open>scenario1\<close> in binary64: a split at 0.20 cuts the second segment in two and
  selects the right-hand piece; at 0.16 (10 ms after a boundary) and at 1.0 (in no
  segment) nothing changes.\<close>

theorem splitAtPlayhead_spec_witness:
  "phonemes (splitAtPlayhead
       ((initialEditor (binary64Sequence scenario1))\<lparr>currentTime := round64 0.20\<rparr>))
     = binary64Sequence
         [\<lparr>start = 0, end' = 0.15, value' = ''X''\<rparr>,
          \<lparr>start = 0.15, end' = 0.20, value' = ''B''\<rparr>,
          \<lparr>start = 0.20, end' = 0.30, value' = ''B''\<rparr>,
          \<lparr>start = 0.30, end' = 1.0, value' = ''A''\<rparr>]
   \<and> selectedSegmentId (splitAtPlayhead
         ((initialEditor (binary64Sequence scenario1))\<lparr>currentTime := round64 0.20\<rparr>))
       = Some 2
   \<and> splitAtPlayhead ((initialEditor (binary64Sequence scenario1))\<lparr>currentTime := round64 0.16\<rparr>)
       = (initialEditor (binary64Sequence scenario1))\<lparr>currentTime := round64 0.16\<rparr>
   \<and> splitAtPlayhead ((initialEditor (binary64Sequence scenario1))\<lparr>currentTime := 1\<rparr>)
       = (initialEditor (binary64Sequence scenario1))\<lparr>currentTime := 1\<rparr>"
proof -
  define a where "a = round64 0.15"
  define b where "b = round64 0.30"
  define t where "t = round64 0.20"
  define u where "u = round64 0.16"
  have r0: "round64 0 = 0" by (simp add: round64_def)
  have r1: "round64 1 = 1" by code_simp
  have ps: "binary64Sequence scenario1
      = [\<lparr>start = 0, end' = a, value' = ''X''\<rparr>, \<lparr>start = a, end' = b, value' = ''B''\<rparr>,
         \<lparr>start = b, end' = 1, value' = ''A''\<rparr>]"
    by (simp add: binary64Sequence_def scenario1_def a_def b_def r0 r1)
  have o: "0 < a" "a < u" "u < t" "t < b" "b < 1"
    unfolding a_def b_def t_def u_def by code_simp+
  have g: "\<not> fsub t a < round64 0.02" "\<not> fsub b t < round64 0.02" "fsub u a < round64 0.02"
    unfolding a_def b_def t_def u_def by code_simp+
  from splitAtPlayhead_spec[of "(initialEditor (binary64Sequence scenario1))\<lparr>currentTime := t\<rparr>"]
  have 1: "phonemes (splitAtPlayhead ((initialEditor (binary64Sequence scenario1))\<lparr>currentTime := t\<rparr>))
      = [\<lparr>start = 0, end' = a, value' = ''X''\<rparr>, \<lparr>start = a, end' = t, value' = ''B''\<rparr>,
         \<lparr>start = t, end' = b, value' = ''B''\<rparr>, \<lparr>start = b, end' = 1, value' = ''A''\<rparr>]
      \<and> selectedSegmentId (splitAtPlayhead ((initialEditor (binary64Sequence scenario1))\<lparr>currentTime := t\<rparr>)) = Some 2"
    using o g by (simp add: initialEditor_def ps All_less_Suc)
  from splitAtPlayhead_spec[of "(initialEditor (binary64Sequence scenario1))\<lparr>currentTime := u\<rparr>"]
  have 2: "splitAtPlayhead ((initialEditor (binary64Sequence scenario1))\<lparr>currentTime := u\<rparr>)
      = (initialEditor (binary64Sequence scenario1))\<lparr>currentTime := u\<rparr>"
    using o g by (simp add: initialEditor_def ps All_less_Suc)
  from splitAtPlayhead_spec[of "(initialEditor (binary64Sequence scenario1))\<lparr>currentTime := 1\<rparr>"]
  have 3: "splitAtPlayhead ((initialEditor (binary64Sequence scenario1))\<lparr>currentTime := 1\<rparr>)
      = (initialEditor (binary64Sequence scenario1))\<lparr>currentTime := 1\<rparr>"
    using o by (simp add: initialEditor_def ps)
  from 1 2 3 show ?thesis
    by (simp add: binary64Sequence_def a_def b_def t_def u_def r0 r1)
qed

text \<open>
  Claim C4 as stated fails at the threshold. Let a segment start at the binary64 value
  of 0.003 and the play-head be at the binary64 value of 0.023: the play-head is less
  than 20 ms after the start, but the difference rounds to the binary64 value of
  0.02, the guard \<^verbatim>\<open>splitTime - segment.start < 0.02\<close> is false, and the segment is split.
\<close>

theorem split_within_20ms_counterexample:
  "round64 0.003 \<le> round64 0.023 \<and> round64 0.023 < 1
   \<and> round64 0.023 - round64 0.003 < 0.02
   \<and> phonemes (splitAtPlayhead
        ((initialEditor [\<lparr>start = 0, end' = round64 0.003, value' = ''X''\<rparr>,
                         \<lparr>start = round64 0.003, end' = 1, value' = ''B''\<rparr>])
           \<lparr>currentTime := round64 0.023\<rparr>))
       = [\<lparr>start = 0, end' = round64 0.003, value' = ''X''\<rparr>,
          \<lparr>start = round64 0.003, end' = round64 0.023, value' = ''B''\<rparr>,
          \<lparr>start = round64 0.023, end' = 1, value' = ''B''\<rparr>]"
  by code_simp

section \<open>Deleting a segment\<close>

text \<open>
  Claim C5. For a valid index, deleting from a sequence of exactly one segment is
  refused: the editor state, history included, is left as it is. Otherwise the
  segment is removed and a neighbour is extended over it: the left neighbour's end
  becomes the deleted segment's end, or, when the first segment is deleted, the new
  first segment's start becomes the deleted segment's start. The sequence keeps its
  first start and its last end, a valid sequence stays valid for the same duration,
  and the new sequence is pushed on the history as "Delete segment".
\<close>

theorem deleteSegment_spec:
  fixes st :: editor
  defines "ps \<equiv> phonemes st"
  assumes "0 \<le> index" and "index < int (length ps)"
  shows "(length ps = 1 \<longrightarrow> deleteSegment (Some index) st = st)
       \<and> (length ps > 1 \<and> index > 0 \<longrightarrow>
            phonemes (deleteSegment (Some index) st) =
              take (nat index - 1) ps
              @ [(ps ! (nat index - 1))\<lparr>end' := end' (ps ! nat index)\<rparr>]
              @ drop (nat index + 1) ps)
       \<and> (length ps > 1 \<and> index = 0 \<longrightarrow>
            phonemes (deleteSegment (Some index) st) =
              (ps ! 1)\<lparr>start := start (ps ! 0)\<rparr> # drop 2 ps)
       \<and> (length ps > 1 \<longrightarrow>
            start (hd (phonemes (deleteSegment (Some index) st))) = start (hd ps)
            \<and> end' (last (phonemes (deleteSegment (Some index) st))) = end' (last ps)
            \<and> last (history (deleteSegment (Some index) st)) =
                 \<lparr>h_phonemes = phonemes (deleteSegment (Some index) st),
                  description = ''Delete segment''\<rparr>)
       \<and> (\<forall>d. validSequence d ps \<longrightarrow> validSequence d (phonemes (deleteSegment (Some index) st)))"
proof -
  have v: "\<forall>d. validSequence d ps \<longrightarrow> validSequence d (phonemes (deleteSegment (Some index) st))"
    by (simp add: ps_def valid_deleteSegment)
  have one: "deleteSegment (Some index) st = st" if "length ps = 1"
    using that by (simp add: deleteSegment_def ps_def)
  have p: "phonemes (deleteSegment (Some index) st) = deletePhoneme (nat index) ps"
    and h: "last (history (deleteSegment (Some index) st)) =
             \<lparr>h_phonemes = deletePhoneme (nat index) ps, description = ''Delete segment''\<rparr>"
    if "length ps > 1"
    using that assms(2,3) last_history_addToHistory[of "deletePhoneme (nat index) ps" "''Delete segment''" st]
    by (simp_all add: deleteSegment_def ps_def Let_def onPhonemesChange_def)
  have first: "deletePhoneme 0 ps = (ps ! 1)\<lparr>start := start (ps ! 0)\<rparr> # drop 2 ps
               \<and> start (hd (deletePhoneme 0 ps)) = start (hd ps)
               \<and> end' (last (deletePhoneme 0 ps)) = end' (last ps)"
    if "length ps > 1"
  proof -
    from that obtain a r ys where "ps = a # r # ys" by (cases ps; cases "tl ps") auto
    then show ?thesis by (simp add: deletePhoneme_first)
  qed
  have inner: "deletePhoneme (nat index) ps =
                 take (nat index - 1) ps
                 @ [(ps ! (nat index - 1))\<lparr>end' := end' (ps ! nat index)\<rparr>]
                 @ drop (nat index + 1) ps
               \<and> start (hd (deletePhoneme (nat index) ps)) = start (hd ps)
               \<and> end' (last (deletePhoneme (nat index) ps)) = end' (last ps)"
    if "index > 0"
  proof -
    from that obtain k where k: "nat index = Suc k" by (cases "nat index") auto
    with assms(3) have "Suc k < length ps" by simp
    from split_at_two[OF this] obtain xs ys
      where ps: "ps = xs @ ps ! k # ps ! Suc k # ys" and len: "length xs = k" by blast
    define l where "l = ps ! k"
    define a where "a = ps ! Suc k"
    from ps have ps': "ps = xs @ l # a # ys" by (simp add: l_def a_def)
    have d: "deletePhoneme (nat index) ps = xs @ l\<lparr>end' := end' a\<rparr> # ys"
      using deletePhoneme_inner[of xs l a ys] by (simp add: ps' k len)
    have "take k ps = xs" "drop (Suc (Suc k)) ps = ys"
      using len by (simp_all add: ps')
    with d have "deletePhoneme (nat index) ps =
        take (nat index - 1) ps @ [l\<lparr>end' := end' a\<rparr>] @ drop (nat index + 1) ps"
      by (simp add: k)
    moreover have "start (hd (deletePhoneme (nat index) ps)) = start (hd ps)"
    proof -
      have "start (hd (xs @ l\<lparr>end' := end' a\<rparr> # ys)) = start (hd (xs @ l # a # ys))"
        by (cases xs) auto
      then show ?thesis unfolding d by (subst ps')
    qed
    moreover have "end' (last (deletePhoneme (nat index) ps)) = end' (last ps)"
    proof -
      have "end' (last (xs @ l\<lparr>end' := end' a\<rparr> # ys)) = end' (last (xs @ l # a # ys))"
        by (cases ys rule: rev_cases) auto
      then show ?thesis unfolding d by (subst ps')
    qed
    ultimately show ?thesis
      by (simp add: l_def a_def k)
  qed
  from v one p h first inner assms(2) show ?thesis
    by (cases "index = 0") auto
qed

text \<open>The one-segment sequence is left alone; deleting the first of two segments gives
  one segment over the whole second; deleting the middle segment of \<open>scenario1\<close>
  extends the first one.\<close>

theorem deleteSegment_spec_witness:
  "deleteSegment (Some 0) (initialEditor [\<lparr>start = 0, end' = 1, value' = ''X''\<rparr>])
     = initialEditor [\<lparr>start = 0, end' = 1, value' = ''X''\<rparr>]
   \<and> phonemes (deleteSegment (Some 0)
        (initialEditor [\<lparr>start = 0, end' = 0.5, value' = ''A''\<rparr>, \<lparr>start = 0.5, end' = 1, value' = ''B''\<rparr>]))
     = [\<lparr>start = 0, end' = 1, value' = ''B''\<rparr>]
   \<and> phonemes (deleteSegment (Some 1) (initialEditor scenario1))
     = [\<lparr>start = 0, end' = 0.30, value' = ''X''\<rparr>, \<lparr>start = 0.30, end' = 1, value' = ''A''\<rparr>]
   \<and> validSequence 1 (phonemes (deleteSegment (Some 1) (initialEditor scenario1)))"
  using deleteSegment_spec[of 0 "initialEditor [\<lparr>start = 0, end' = 1, value' = ''X''\<rparr>]"]
        deleteSegment_spec[of 0 "initialEditor [\<lparr>start = 0, end' = 0.5, value' = ''A''\<rparr>, \<lparr>start = 0.5, end' = 1, value' = ''B''\<rparr>]"]
        deleteSegment_spec[of 1 "initialEditor scenario1"] scenario1_valid
  by (simp add: initialEditor_def scenario1_def deleteSegment_def deletePhoneme_def Let_def
        splice_def onPhonemesChange_def)

section \<open>Seeding and export\<close>

text \<open>
  Claim C6. Seeding the editable phoneme list from a detection result and exporting it
  at once gives the interchange object whose \<open>mouthCues\<close> array is the detector's cue
  list, cue by cue and in the same order (same start, end and value at every index,
  hence the same count), under a \<open>metadata\<close> object made of a \<open>soundFile\<close> string and
  the \<open>duration\<close> number passed in.
\<close>

theorem seed_export_roundtrip:
  "exportPhonemeJSON (seedPhonemes res) dur =
     JObject [(''metadata'',
                 JObject [(''soundFile'', JString ''audio.wav''), (''duration'', JNumber dur)]),
              (''mouthCues'', JArray (map cueJSON (mouthCues res)))]"
  by (simp add: exportPhonemeJSON_def seedPhonemes_def cueJSON_def comp_def)

section \<open>Merging and deleting a boundary\<close>

text \<open>
  Claim C7. Deleting boundary \<open>i\<close> and merging with segment \<open>i\<close> selected give the same
  sequence. For \<open>0 \<le> i < length - 1\<close> it is the old one with segments \<open>i\<close> and \<open>i + 1\<close>
  replaced by one segment from the start of segment \<open>i\<close> to the end of segment
  \<open>i + 1\<close> with the label of segment \<open>i\<close>; for any other \<open>i\<close> neither operation changes
  anything.
\<close>

theorem deleteBoundary_mergeWithNext:
  fixes st :: editor
  defines "ps \<equiv> phonemes st"
  shows "phonemes (deleteBoundary i st) = phonemes (mergeWithNext (st\<lparr>selectedSegmentId := Some i\<rparr>))
       \<and> (0 \<le> i \<and> i < int (length ps) - 1 \<longrightarrow>
            phonemes (deleteBoundary i st) =
              take (nat i) ps
              @ [\<lparr>start = start (ps ! nat i), end' = end' (ps ! (nat i + 1)),
                  value' = value' (ps ! nat i)\<rparr>]
              @ drop (nat i + 2) ps)
       \<and> (\<not> (0 \<le> i \<and> i < int (length ps) - 1) \<longrightarrow>
            deleteBoundary i st = st
            \<and> mergeWithNext (st\<lparr>selectedSegmentId := Some i\<rparr>) = st\<lparr>selectedSegmentId := Some i\<rparr>)"
  by (auto simp: deleteBoundary_def mergeWithNext_def Let_def splice_def ps_def onPhonemesChange_def)

theorem deleteBoundary_mergeWithNext_witness:
  "phonemes (deleteBoundary 1 (initialEditor scenario1))
     = [\<lparr>start = 0, end' = 0.15, value' = ''X''\<rparr>, \<lparr>start = 0.15, end' = 1, value' = ''B''\<rparr>]
   \<and> phonemes (mergeWithNext ((initialEditor scenario1)\<lparr>selectedSegmentId := Some 1\<rparr>))
     = [\<lparr>start = 0, end' = 0.15, value' = ''X''\<rparr>, \<lparr>start = 0.15, end' = 1, value' = ''B''\<rparr>]
   \<and> deleteBoundary 2 (initialEditor scenario1) = initialEditor scenario1
   \<and> mergeWithNext ((initialEditor scenario1)\<lparr>selectedSegmentId := Some 2\<rparr>)
     = (initialEditor scenario1)\<lparr>selectedSegmentId := Some 2\<rparr>"
  using deleteBoundary_mergeWithNext[of 1 "initialEditor scenario1"]
        deleteBoundary_mergeWithNext[of 2 "initialEditor scenario1"]
  by (simp add: initialEditor_def scenario1_def deleteBoundary_def mergeWithNext_def Let_def
        splice_def onPhonemesChange_def)

section \<open>The re-entrancy guard of the processor\<close>

text \<open>
  Claim C8. While a detection request is in flight (the guard \<open>processingRef\<close> is
  set), a further call of \<open>processAudio\<close> returns \<open>null\<close> at once and leaves the whole
  processor state (status, error, last result, guard) as it was.
\<close>

theorem processAudio_rejects_second_call:
  "processingRef st \<Longrightarrow> processAudio_begin st = (Returned None, st)"
  by (simp add: processAudio_begin_def)

theorem processAudio_rejects_second_call_witness:
  "processingRef (snd (processAudio_begin (initialProcessor :: nat processor)))
   \<and> processAudio_begin (snd (processAudio_begin (initialProcessor :: nat processor)))
       = (Returned None, snd (processAudio_begin initialProcessor))"
  using processAudio_rejects_second_call
          [of "snd (processAudio_begin (initialProcessor :: nat processor))"]
  by (simp add: processAudio_begin_def initialProcessor_def)

section \<open>Playback arbitration\<close>

text \<open>
  Were it called with \<open>true\<close>, the page's \<open>handleEditorPlayStateChange\<close> would make the
  editor the active player and pause a playing overview; and
  \<open>handleEditorTimeUpdate\<close> changes neither the active player nor the overview's play
  state: it does nothing unless the editor is the active player, and then only seeks
  the overview.
\<close>

lemma handleEditorPlayStateChange_pauses_overview:
  assumes "playbackInStep (overview pg)"
  shows "activePlayer (handleEditorPlayStateChange True pg) = Some Editor
      \<and> \<not> isPlaying (overview (handleEditorPlayStateChange True pg))
      \<and> \<not> overviewAudible (handleEditorPlayStateChange True pg)"
  using assms
  by (auto simp: handleEditorPlayStateChange_def Let_def playbackInStep_def pause_def
      overviewAudible_def split: option.splits)

lemma handleEditorTimeUpdate_only_seeks:
  "activePlayer (handleEditorTimeUpdate time pg) = activePlayer pg
   \<and> isPlaying (overview (handleEditorTimeUpdate time pg)) = isPlaying (overview pg)
   \<and> overviewAudible (handleEditorTimeUpdate time pg) = overviewAudible pg
   \<and> (activePlayer pg \<noteq> Some Editor \<longrightarrow> handleEditorTimeUpdate time pg = pg)
   \<and> (activePlayer pg = Some Editor \<longrightarrow>
        handleEditorTimeUpdate time pg = pg\<lparr>overview := seek time (overview pg)\<rparr>)"
proof -
  have "isPlaying (overview (handleEditorTimeUpdate time pg)) = isPlaying (overview pg)
    \<and> overviewAudible (handleEditorTimeUpdate time pg) = overviewAudible pg"
    using seek_keeps_play_state[of time "overview pg"]
    by (auto simp: handleEditorTimeUpdate_def overviewAudible_def split: option.splits)
  then show ?thesis by (simp add: handleEditorTimeUpdate_def)
qed

text \<open>
  Claim C9, at the state it fails in. Both transports are loaded and at rest. The
  overview's play button is pressed and the overview plays. Then the editor's player
  starts: the editor records that in its own \<open>isPlaying\<close> and tells the page nothing,
  so the page state is unchanged, the overview is not paused, and both transports
  are audible. A time update of the editor's player does not reach the page either.
\<close>

theorem editor_play_leaves_overview_playing:
  "overviewAudible
     (pageState (transportStep (TimelinePlayPause True)
        \<lparr>pageState = loadedPage 1, editorIsPlaying = False, editorCurrentTime = 0\<rparr>))
   \<and> pageState (transportStep PlayerPlaying (transportStep (TimelinePlayPause True)
        \<lparr>pageState = loadedPage 1, editorIsPlaying = False, editorCurrentTime = 0\<rparr>))
       = pageState (transportStep (TimelinePlayPause True)
        \<lparr>pageState = loadedPage 1, editorIsPlaying = False, editorCurrentTime = 0\<rparr>)
   \<and> bothAudible (transportStep PlayerPlaying (transportStep (TimelinePlayPause True)
        \<lparr>pageState = loadedPage 1, editorIsPlaying = False, editorCurrentTime = 0\<rparr>))
   \<and> pageState (transportStep (PlayerTimeUpdate 0.5) (transportStep PlayerPlaying
        \<lparr>pageState = loadedPage 1, editorIsPlaying = False, editorCurrentTime = 0\<rparr>))
       = loadedPage 1"
  by (simp add: bothAudible_def overviewAudible_def loadedPage_def
        handleTimelinePlayPause_def togglePlayPause_def play_def Let_def)

section \<open>The displayed phoneme\<close>

text \<open>
  Claim C10. For a non-empty phoneme list and a playback time \<open>t\<close> that lies in no
  segment's half-open interval \<open>[start, end)\<close>, the lookup of the character and
  mouth-shape displays returns the first segment of the list, and the shape shown is
  that segment's label (any of the nine mouth shapes), not the rest shape the code
  keeps for a missing phoneme.
\<close>

theorem currentPhoneme_fallback:
  assumes "ps \<noteq> []"
    and "\<forall>p \<in> set ps. \<not> (start p \<le> t \<and> t < end' p)"
  shows "currentPhoneme ps t = Some (hd ps)
         \<and> (value' (hd ps) \<in> MouthShapes \<longrightarrow> currentShape ps t = value' (hd ps))"
proof -
  from assms(2) have "List.find (containsTime t) ps = None"
    by (simp add: find_None_iff containsTime_def)
  with assms(1) have c: "currentPhoneme ps t = Some (hd ps)"
    by (simp add: currentPhoneme_def hd_conv_nth)
  have "value' (hd ps) \<noteq> []" if "value' (hd ps) \<in> MouthShapes"
    using that by (auto simp: MouthShapes_def)
  with c show ?thesis
    by (simp add: currentShape_def)
qed

theorem currentPhoneme_fallback_witness:
  "currentPhoneme [\<lparr>start = 0, end' = 1/2, value' = ''B''\<rparr>,
                   \<lparr>start = 1/2, end' = 1, value' = ''A''\<rparr>] 1
     = Some \<lparr>start = 0, end' = 1/2, value' = ''B''\<rparr>
   \<and> currentShape [\<lparr>start = 0, end' = 1/2, value' = ''B''\<rparr>,
                   \<lparr>start = 1/2, end' = 1, value' = ''A''\<rparr>] 1 = ''B''"
  using currentPhoneme_fallback
          [of "[\<lparr>start = 0, end' = 1/2, value' = ''B''\<rparr>,
                \<lparr>start = 1/2, end' = 1, value' = ''A''\<rparr>]" 1]
  by (simp add: MouthShapes_def)

end
